theory Spec2Isabelle
  imports Main
begin

section \<open>Strings\<close>

text \<open>
  A JavaScript string is modelled as a \<^typ>\<open>string\<close>: its characters are the code units
  of the JavaScript string, each below 256. The upper-case form of such a string can hold
  a code unit from 256 on and can be longer than the string, so it is kept as the list of
  its code units, each a natural number.
\<close>

definition lowerLetters :: string where
  "lowerLetters = ''abcdefghijklmnopqrstuvwxyz''"

definition upperLetters :: string where
  "upperLetters = ''ABCDEFGHIJKLMNOPQRSTUVWXYZ''"

definition digits :: string where
  "digits = ''0123456789''"

definition units :: "string \<Rightarrow> nat list" where
  "units s = map of_char s"

text \<open>
  \<^verbatim>\<open>String.prototype.toUpperCase\<close> on one code unit below 256: the letters
  \<open>a..z\<close> and the letters from \<open>0xE0\<close> to \<open>0xFE\<close>, the division sign \<open>0xF7\<close>
  apart, have their capital 32 below; the capital of the micro sign \<open>0xB5\<close> is
  \<open>0x39C\<close>, that of \<open>0xFF\<close> is \<open>0x178\<close>, and the sharp s \<open>0xDF\<close> becomes
  \<^verbatim>\<open>SS\<close>; every other code unit is its own upper-case form.
\<close>

definition upperUnits :: "nat \<Rightarrow> nat list" where
  "upperUnits u =
     (if 0x61 \<le> u \<and> u \<le> 0x7A then [u - 0x20]
      else if u = 0xB5 then [0x39C]
      else if u = 0xDF then [0x53, 0x53]
      else if 0xE0 \<le> u \<and> u \<le> 0xFE \<and> u \<noteq> 0xF7 then [u - 0x20]
      else if u = 0xFF then [0x178]
      else [u])"

text \<open>\<^verbatim>\<open>String.prototype.toUpperCase\<close>\<close>

definition toUpperCase :: "string \<Rightarrow> nat list" where
  "toUpperCase s = concat (map upperUnits (units s))"

text \<open>
  The comparison of characters under the flag \<^verbatim>\<open>i\<close> of a regular expression (without
  the flag \<^verbatim>\<open>u\<close>): two characters match when they have the same canonical form. The
  canonical form of a code unit is its upper-case form when that is one code unit, except
  that a code unit from 128 on is never mapped to one below 128.
\<close>

definition canonicalize :: "char \<Rightarrow> nat" where
  "canonicalize c =
     (let ch = of_char c in
      case upperUnits ch of
        [cu] \<Rightarrow> if 128 \<le> ch \<and> cu < 128 then ch else cu
      | _ \<Rightarrow> ch)"

text \<open>\<^verbatim>\<open>Array.prototype.join\<close> on an array of strings.\<close>

fun join :: "string \<Rightarrow> string list \<Rightarrow> string" where
  "join sep [] = []"
| "join sep [x] = x"
| "join sep (x # y # ys) = x @ sep @ join sep (y # ys)"

section \<open>tag-validator.ts\<close>

text \<open>\<^verbatim>\<open>function upperCase(tag) { return tag.toUpperCase(); }\<close>\<close>

definition upperCase :: "string \<Rightarrow> nat list" where
  "upperCase tag = toUpperCase tag"

text \<open>
  The two private fields of \<^verbatim>\<open>TagValidator\<close>; \<open>None\<close> is \<^verbatim>\<open>undefined\<close>
  (the option was not configured).
\<close>

record tagValidator =
  tv_include :: "nat list list option"
  tv_exclude :: "nat list list option"

text \<open>
  The constructor: \<^verbatim>\<open>config.include?.map(upperCase)\<close> and the same for
  \<^verbatim>\<open>exclude\<close>.
\<close>

definition newTagValidator :: "string list option \<Rightarrow> string list option \<Rightarrow> tagValidator" where
  "newTagValidator inc exc =
     \<lparr> tv_include = map_option (map upperCase) inc,
       tv_exclude = map_option (map upperCase) exc \<rparr>"

text \<open>
  \<^verbatim>\<open>validate(tag)\<close>. An array is truthy in JavaScript even when it is empty, so
  \<^verbatim>\<open>_include && ...\<close> tests only whether the list was configured;
  \<^verbatim>\<open>indexOf(tag) < 0\<close> is non-membership.
\<close>

definition validate :: "tagValidator \<Rightarrow> string \<Rightarrow> bool" where
  "validate v tag0 =
     (let tag = upperCase tag0 in
      if (case tv_include v of Some inc \<Rightarrow> tag \<notin> set inc | None \<Rightarrow> False) then False
      else if (case tv_exclude v of Some exc \<Rightarrow> tag \<in> set exc | None \<Rightarrow> False) then False
      else True)"

section \<open>utils.ts\<close>

text \<open>
  \<^verbatim>\<open>/^[a-zA-Z$_](\w|_$)+$/.test(key)\<close>. The character class at the head is
  \<open>isKeyHead\<close>; \<^verbatim>\<open>\w\<close> (no unicode flag) is \<open>isWordChar\<close>. The group
  \<^verbatim>\<open>(\w|_$)+\<close> runs one or more times, each round taking one word character or
  an underscore that ends the input, and the final \<^verbatim>\<open>$\<close> asks for the end of
  the input: \<open>keyTail\<close>.
\<close>

definition isKeyHead :: "char \<Rightarrow> bool" where
  "isKeyHead c = (c \<in> set (lowerLetters @ upperLetters @ ''$_''))"

definition isWordChar :: "char \<Rightarrow> bool" where
  "isWordChar c = (c \<in> set (lowerLetters @ upperLetters @ digits @ ''_''))"

fun keyTail :: "string \<Rightarrow> bool" where
  "keyTail [] = False"
| "keyTail [c] = (isWordChar c \<or> c = CHR ''_'')"
| "keyTail (c # d # ds) = (isWordChar c \<and> keyTail (d # ds))"

definition safeKeyPattern :: "string \<Rightarrow> bool" where
  "safeKeyPattern key = (case key of [] \<Rightarrow> False | c # cs \<Rightarrow> isKeyHead c \<and> keyTail cs)"

definition toSafePropKey :: "string \<Rightarrow> string" where
  "toSafePropKey key = (if safeKeyPattern key then key else [CHR 0x27] @ key @ [CHR 0x27])"

text \<open>
  \<^verbatim>\<open>joinComment(comment)\<close>: an absent comment and the empty string are both falsy,
  so the argument is a string, empty when absent.
\<close>

definition joinComment :: "string \<Rightarrow> string" where
  "joinComment comment =
     (if comment \<noteq> [] then '' // '' @ map (\<lambda>c. if c = CHR 0x0A then CHR '' '' else c) comment
      else [])"

section \<open>request-response-type.ts\<close>

text \<open>
  The values \<^verbatim>\<open>jsonToType\<close> receives. A number is kept as an integer: the function
  only asks whether it is zero. An object is the list of its entries in the order of
  \<^verbatim>\<open>Object.keys\<close>.
\<close>

datatype json =
    JNull
  | JUndefined
  | JBool bool
  | JNum int
  | JStr string
  | JArr "json list"
  | JObj "(string \<times> json) list"

text \<open>The truthiness test of \<^verbatim>\<open>if (data)\<close>.\<close>

fun truthy :: "json \<Rightarrow> bool" where
  "truthy JNull = False"
| "truthy JUndefined = False"
| "truthy (JBool b) = b"
| "truthy (JNum n) = (n \<noteq> 0)"
| "truthy (JStr s) = (s \<noteq> [])"
| "truthy (JArr xs) = True"
| "truthy (JObj kvs) = True"

text \<open>The \<^verbatim>\<open>typeof\<close> operator.\<close>

fun typeof :: "json \<Rightarrow> string" where
  "typeof JNull = ''object''"
| "typeof JUndefined = ''undefined''"
| "typeof (JBool b) = ''boolean''"
| "typeof (JNum n) = ''number''"
| "typeof (JStr s) = ''string''"
| "typeof (JArr xs) = ''object''"
| "typeof (JObj kvs) = ''object''"

text \<open>
  \<^verbatim>\<open>jsonToType(data)\<close>; \<open>jsonToTypeKeys\<close> is the loop \<^verbatim>\<open>for (const key of keys)\<close>
  and returns what the loop appends to \<^verbatim>\<open>schema\<close>. \<^verbatim>\<open>data[0]\<close> of an empty
  array is \<^verbatim>\<open>undefined\<close>.
\<close>

fun jsonToType :: "json \<Rightarrow> string"
  and jsonToTypeKeys :: "(string \<times> json) list \<Rightarrow> string" where
  "jsonToType data =
     (if truthy data then
        (if typeof data = ''object'' then
           (case data of
              JArr xs \<Rightarrow>
                (case xs of [] \<Rightarrow> jsonToType JUndefined | x # _ \<Rightarrow> jsonToType x) @ ''[]''
            | JObj kvs \<Rightarrow>
                (if length kvs > 0 then ''{'' @ jsonToTypeKeys kvs @ ''}''
                 else ''{[P:string]: any}'')
            | _ \<Rightarrow> typeof data)
         else typeof data)
      else ''any'')"
| "jsonToTypeKeys [] = []"
| "jsonToTypeKeys ((key, v) # kvs) =
     toSafePropKey key @ '': '' @ jsonToType v @ '';'' @ jsonToTypeKeys kvs"

section \<open>The API description document\<close>

text \<open>
  A schema node of the document, with the fields the translators read. A field the
  document leaves out is \<open>None\<close>, \<open>NoType\<close>, \<open>NoItems\<close>, \<open>NoAdditional\<close>, the
  empty string or \<open>False\<close>: the translators test every one of them for truthiness only.
  \<^verbatim>\<open>$ref\<close> is \<open>ref\<close>, \<^verbatim>\<open>type\<close> is \<open>stype\<close> (a name or an array of names),
  \<^verbatim>\<open>enum\<close> holds its values as the strings \<^verbatim>\<open>join\<close> turns them into, and
  \<^verbatim>\<open>properties\<close> lists its entries in the order of \<^verbatim>\<open>for (const key in props)\<close>.
\<close>

datatype 'a itemsOf = NoItems | Item 'a | Items "'a list"

datatype 'a additionalOf = NoAdditional | AdditionalBool bool | AdditionalSchema 'a

datatype typeField = NoType | TypeName string | TypeNames "string list"

datatype schema = Schema
  (ref: string)
  (allOf: "schema list option")
  (oneOf: "schema list option")
  (anyOf: "schema list option")
  (stype: typeField)
  (enum: "string list option")
  (items: "schema itemsOf")
  (properties: "(string \<times> schema) list option")
  (additionalProperties: "schema additionalOf")
  (description: string)
  (deprecated: bool)

text \<open>The node \<^verbatim>\<open>{}\<close>.\<close>

definition emptySchema :: schema where
  "emptySchema = Schema [] None None None NoType None NoItems None NoAdditional [] False"

text \<open>
  A parameter of an operation. \<open>p_node\<close> is the parameter object itself read as a schema
  node: it carries the object's \<^verbatim>\<open>$ref\<close> and \<^verbatim>\<open>description\<close>, and the
  \<^verbatim>\<open>type\<close>, \<^verbatim>\<open>items\<close> and \<^verbatim>\<open>enum\<close> a version 2 parameter declares inline.
\<close>

record param =
  p_name :: string
  p_in :: string
  p_schema :: "schema option"
  p_node :: schema

text \<open>
  \<^verbatim>\<open>requestBody\<close> (version 3) and one entry of \<^verbatim>\<open>responses\<close>: a reference, or
  \<^verbatim>\<open>content\<close> by media type (version 3), or a \<^verbatim>\<open>schema\<close> (version 2).
\<close>

record body =
  b_ref :: string
  b_content :: "(string \<times> schema option) list"
  b_schema :: "schema option"

record operation =
  op_tags :: "string list"
  operationId :: string
  op_description :: string
  parameters :: "param list"
  requestBody :: "body option"
  responses :: "(string \<times> body) list"

text \<open>
  The document: \<open>schemas\<close> is \<^verbatim>\<open>components.schemas\<close> (version 3) or
  \<^verbatim>\<open>definitions\<close> (version 2), \<open>None\<close> when the document has none; \<open>paths\<close> maps
  a URL to its path item, the entries of each in the order of \<^verbatim>\<open>for ... in\<close>.
\<close>

record document =
  schemas :: "(string \<times> schema) list option"
  paths :: "(string \<times> (string \<times> operation) list) list"

section \<open>The translator's output and configuration\<close>

record requestItem =
  name :: string
  url :: string
  item_method :: string
  item_description :: string
  requestQueryType :: string
  requestPathType :: string
  requestBodyType :: string
  requestBodyTypeIsFormData :: "bool option"
  responseType :: string

text \<open>
  A manual type override (\<^verbatim>\<open>manualTypes[url][method][field]\<close>): a type expression, a
  data value (an array or an object) or a function of the request item that returns one
  of the two.
\<close>

datatype manualValue =
    ManualString string
  | ManualArray "json list"
  | ManualObject "(string \<times> json) list"

datatype manualType = ManualValue manualValue | ManualFunction "requestItem \<Rightarrow> manualValue"

datatype typeSlot = SlotQuery | SlotPath | SlotBody | SlotResponse

datatype keyFrom = FromParam | FromSchema

text \<open>\<^verbatim>\<open>ssr?: boolean | string[]\<close>; absent and \<^verbatim>\<open>false\<close> are \<open>SsrOff\<close>.\<close>

datatype ssrOption = SsrOff | SsrOn | SsrMethods "string list"

text \<open>\<^verbatim>\<open>DocConfig\<close>, without the import paths and the document link.\<close>

record docConfig =
  cfg_name :: string
  cfg_ssr :: ssrOption
  cfg_include :: "string list option"
  cfg_exclude :: "string list option"
  urlPrefix :: string
  removeUrlPrefix :: string
  customResponseReturnPath :: string
  propKeyReplacer :: "(string \<Rightarrow> keyFrom \<Rightarrow> string) option"
  urlToNameReplacer :: "(string \<Rightarrow> string) option"
  getTag :: "(string \<Rightarrow> string \<Rightarrow> operation \<Rightarrow> string) option"
  manualTypes :: "string \<Rightarrow> string \<Rightarrow> (typeSlot \<times> manualType) list option"

text \<open>
  What a translator instance reads and never writes: the document, the configuration and
  \<^verbatim>\<open>pascalCase\<close> of the package \<^verbatim>\<open>change-case\<close>, which is not part of the repository
  and is a parameter here. So is the regular-expression engine of the runtime, where
  the code hands it a pattern built from a text of the document: \<open>regExpReplace\<close> is
  \<^verbatim>\<open>s.replace(new RegExp(source, 'i'), '')\<close> as a function of \<open>source\<close> and
  \<open>s\<close>, \<open>None\<close> when the constructor throws because the source is not a pattern.
\<close>

record env =
  pascalCase :: "string \<Rightarrow> string"
  regExpReplace :: "string \<Rightarrow> string \<Rightarrow> string option"
  doc :: document
  config :: docConfig

text \<open>
  What the translator appends to \<^verbatim>\<open>typesTemplate\<close> and \<^verbatim>\<open>interfacesTemplate\<close>.
  A template is kept as the list of the pieces appended to it; \<open>templateText\<close> is the
  string the code holds.
\<close>

datatype emitted = Comment string | Interface string string | TypeAlias string string

fun render :: "emitted \<Rightarrow> string" where
  "render (Comment c) = c"
| "render (Interface typeName schemaType) = ''\<newline>interface '' @ typeName @ '' '' @ schemaType"
| "render (TypeAlias typeName schemaType) = ''\<newline>type '' @ typeName @ '' = '' @ schemaType"

definition templateText :: "emitted list \<Rightarrow> string" where
  "templateText t = concat (map render t)"

text \<open>The fields of a translator instance that it writes.\<close>

record pstate =
  tags :: "(string \<times> requestItem list) list"
  refs :: "string set"
  typesTemplate :: "emitted list"
  interfacesTemplate :: "emitted list"

definition newState :: pstate where
  "newState = \<lparr> tags = [], refs = {}, typesTemplate = [], interfacesTemplate = [] \<rparr>"

text \<open>
  What a run can end with besides a result: the model's fuel ran out, the code threw a
  \<^verbatim>\<open>TypeError\<close>, or the constructor \<^verbatim>\<open>RegExp\<close> threw a \<^verbatim>\<open>SyntaxError\<close>.
\<close>

datatype error = OutOfFuel | TypeError | SyntaxError

section \<open>Property reads on plain objects\<close>

text \<open>
  \<^verbatim>\<open>obj[key]\<close> on an object literal or a parsed JSON object also finds what the object
  inherits from \<^verbatim>\<open>Object.prototype\<close>: a function, or the prototype itself for
  \<^verbatim>\<open>__proto__\<close>, all of them truthy.
\<close>

definition objectPrototypeKeys :: "string list" where
  "objectPrototypeKeys =
     [''constructor'', ''__defineGetter__'', ''__defineSetter__'', ''hasOwnProperty'',
      ''__lookupGetter__'', ''__lookupSetter__'', ''isPrototypeOf'', ''propertyIsEnumerable'',
      ''toString'', ''valueOf'', ''__proto__'', ''toLocaleString'']"

text \<open>
  \<^verbatim>\<open>this.doc?.components?.schemas?.[schemaName]\<close> and
  \<^verbatim>\<open>this.doc?.definitions?.[schemaName]\<close>. An inherited value has none of the
  fields of a schema node and is read as \<open>emptySchema\<close>.
\<close>

definition lookupSchema :: "env \<Rightarrow> string \<Rightarrow> schema option" where
  "lookupSchema e schemaName =
     (case schemas (doc e) of
        None \<Rightarrow> None
      | Some kvs \<Rightarrow>
          (case map_of kvs schemaName of
             Some schemaItem \<Rightarrow> Some schemaItem
           | None \<Rightarrow> if schemaName \<in> set objectPrototypeKeys then Some emptySchema else None))"

text \<open>\<^verbatim>\<open>this.refs[typeName]\<close>, as a truth value.\<close>

definition registered :: "pstate \<Rightarrow> string \<Rightarrow> bool" where
  "registered st typeName = (typeName \<in> refs st \<or> typeName \<in> set objectPrototypeKeys)"

section \<open>parse-schemas.ts and parse-schemas-v2.ts: what the two classes share\<close>

text \<open>\<^verbatim>\<open>isRef(obj) { return !!obj?.$ref; }\<close>\<close>

definition isRef :: "schema \<Rightarrow> bool" where
  "isRef obj = (ref obj \<noteq> [])"

text \<open>\<^verbatim>\<open>isInterface(obj) { return obj?.type === 'object'; }\<close>\<close>

definition isInterface :: "schema \<Rightarrow> bool" where
  "isInterface obj = (stype obj = TypeName ''object'')"

text \<open>The method \<^verbatim>\<open>toSafePropKey(key, from)\<close> of the two classes.\<close>

definition toSafePropKeyFrom :: "env \<Rightarrow> string \<Rightarrow> keyFrom \<Rightarrow> string" where
  "toSafePropKeyFrom e key from =
     toSafePropKey (case propKeyReplacer (config e) of Some f \<Rightarrow> f key from | None \<Rightarrow> key)"

text \<open>
  \<^verbatim>\<open>getRefName(refItem) { return refItem.$ref.split('/').pop(); }\<close>, on the string
  \<^verbatim>\<open>refItem.$ref\<close>: what follows its last \<^verbatim>\<open>/\<close>.
\<close>

definition getRefName :: "string \<Rightarrow> string" where
  "getRefName r = rev (takeWhile (\<lambda>c. c \<noteq> CHR ''/'') (rev r))"

text \<open>
  \<^verbatim>\<open>formatSchemaName(name) { return pascalCase(name.replace(/^api\./i, '')); }\<close>.
  The pattern matches the first four characters when they are \<^verbatim>\<open>api.\<close> under the
  comparison of the flag \<^verbatim>\<open>i\<close>.
\<close>

definition formatSchemaName :: "env \<Rightarrow> string \<Rightarrow> string" where
  "formatSchemaName e schemaName =
     pascalCase e
       (if map canonicalize (take 4 schemaName) = map canonicalize ''api.''
        then drop 4 schemaName else schemaName)"

text \<open>
  The comment \<^verbatim>\<open>/** @deprecated ... */\<close>; the three characters after
  \<^verbatim>\<open>@deprecated\<close> are code units from 256 on and are written as their UTF-8 bytes.
\<close>

definition deprecatedComment :: string where
  "deprecatedComment =
     ''/** @deprecated '' @
     [CHR 0xE5, CHR 0xB7, CHR 0xB2, CHR 0xE5, CHR 0xBA, CHR 0x9F, CHR 0xE5, CHR 0xBC, CHR 0x83] @
     '' */''"

definition getSchemaItemComment :: "schema \<Rightarrow> string" where
  "getSchemaItemComment schemaItem =
     (if isRef schemaItem then []
      else
        (let comment = description schemaItem;
             comment = (if comment \<noteq> [] then ''\<newline>/** '' @ comment @ '' */'' else comment)
         in if deprecated schemaItem then comment @ ''\<newline>'' @ deprecatedComment else comment))"

text \<open>\<^verbatim>\<open>schemaItem.allOf || schemaItem.oneOf || schemaItem.anyOf\<close>; an array is truthy.\<close>

definition combineSchemas :: "schema \<Rightarrow> schema list option" where
  "combineSchemas schemaItem =
     (case allOf schemaItem of
        Some xs \<Rightarrow> Some xs
      | None \<Rightarrow> (case oneOf schemaItem of Some xs \<Rightarrow> Some xs | None \<Rightarrow> anyOf schemaItem))"

text \<open>The string-literal union of an \<^verbatim>\<open>enum\<close>: \<^verbatim>\<open>`'${schemaItem.enum.join(`' | '`)}'`\<close>.\<close>

definition enumType :: "string list \<Rightarrow> string" where
  "enumType vs = [CHR 0x27] @ join ([CHR 0x27] @ '' | '' @ [CHR 0x27]) vs @ [CHR 0x27]"

text \<open>The last statements of \<^verbatim>\<open>parseSchemaItem\<close>: the declared type names as they are.\<close>

definition typeNames :: "typeField \<Rightarrow> string" where
  "typeNames t = (case t of TypeNames ts \<Rightarrow> join '' | '' ts | TypeName n \<Rightarrow> n | NoType \<Rightarrow> [])"

text \<open>One property line of \<^verbatim>\<open>parseSchemaItemObject\<close>, appended to \<^verbatim>\<open>template\<close>.\<close>

definition propLine :: "env \<Rightarrow> string \<Rightarrow> schema \<Rightarrow> string \<Rightarrow> string \<Rightarrow> string" where
  "propLine e key propItem propType template =
     (let propKey = toSafePropKeyFrom e key FromSchema;
          template1 =
            (if isRef propItem then template @ ''  '' @ propKey @ '': '' @ propType
             else
               (let template2 =
                      (if deprecated propItem then template @ deprecatedComment @ ''\<newline>''
                       else template)
                in template2 @ ''  '' @ propKey @ '': '' @ propType @
                   joinComment (description propItem)))
      in template1 @ ''\<newline>'')"

section \<open>parse-schemas.ts: the version 3 translator\<close>

text \<open>
  The methods of \<^verbatim>\<open>ParseSchemas\<close> that call each other: \<^verbatim>\<open>refSchema\<close>,
  \<^verbatim>\<open>parseRef\<close>, \<^verbatim>\<open>parseSchemaItem\<close>, \<^verbatim>\<open>parseSchemaItemAdditional\<close> and
  \<^verbatim>\<open>parseSchemaItemObject\<close>. \<open>parseSchemaItems\<close> is
  \<^verbatim>\<open>combineSchemas.map((item) => this.parseSchemaItem(item))\<close> and \<open>parseProps\<close> is
  the loop \<^verbatim>\<open>for (const key in props)\<close>. Each takes the state and returns the new one.
  A schema may refer to itself, and the recursion ends because \<^verbatim>\<open>refSchema\<close> marks a
  name before it translates the schema behind it; the first argument bounds how deep
  \<^verbatim>\<open>refSchema\<close> calls nest, and \<open>OutOfFuel\<close> is the answer when the bound is too low.
  \<^verbatim>\<open>parseRef\<close> takes the string \<^verbatim>\<open>refItem.$ref\<close>.

  In \<^verbatim>\<open>case 'array'\<close> the call \<^verbatim>\<open>this.parseSchemaItem(schemaItem.items)\<close> throws on
  an absent \<^verbatim>\<open>items\<close> (\<^verbatim>\<open>schemaItem.allOf\<close> of \<^verbatim>\<open>undefined\<close>); an array there
  has none of the fields the method reads and translates to the empty string.
\<close>

function (sequential)
    refSchema :: "nat \<Rightarrow> env \<Rightarrow> pstate \<Rightarrow> string \<Rightarrow> string \<Rightarrow> error + pstate"
and parseRef :: "nat \<Rightarrow> env \<Rightarrow> pstate \<Rightarrow> string \<Rightarrow> error + (string \<times> pstate)"
and parseSchemaItem :: "nat \<Rightarrow> env \<Rightarrow> pstate \<Rightarrow> schema \<Rightarrow> error + (string \<times> pstate)"
and parseSchemaItems :: "nat \<Rightarrow> env \<Rightarrow> pstate \<Rightarrow> schema list \<Rightarrow> error + (string list \<times> pstate)"
and parseSchemaItemAdditional :: "nat \<Rightarrow> env \<Rightarrow> pstate \<Rightarrow> schema \<Rightarrow> error + (string \<times> pstate)"
and parseSchemaItemObject :: "nat \<Rightarrow> env \<Rightarrow> pstate \<Rightarrow> schema \<Rightarrow> error + (string \<times> pstate)"
and parseProps ::
      "nat \<Rightarrow> env \<Rightarrow> pstate \<Rightarrow> (string \<times> schema) list \<Rightarrow> string \<Rightarrow> error + (string \<times> pstate)"
where
  "refSchema n e st schemaName typeName =
     (case lookupSchema e schemaName of
        None \<Rightarrow> Inr st
      | Some schemaItem \<Rightarrow>
          if registered st typeName then Inr st
          else
            (case n of
               0 \<Rightarrow> Inl OutOfFuel
             | Suc m \<Rightarrow>
                 (case parseSchemaItem m e (st\<lparr>refs := insert typeName (refs st)\<rparr>) schemaItem of
                    Inl err \<Rightarrow> Inl err
                  | Inr (schemaType, st1) \<Rightarrow>
                      (let st2 = st1\<lparr>interfacesTemplate :=
                                   interfacesTemplate st1 @ [Comment (getSchemaItemComment schemaItem)]\<rparr>
                       in if isInterface schemaItem
                          then Inr (st2\<lparr>interfacesTemplate :=
                                   interfacesTemplate st2 @ [Interface typeName schemaType]\<rparr>)
                          else Inr (st2\<lparr>typesTemplate :=
                                   typesTemplate st2 @ [TypeAlias typeName schemaType]\<rparr>)))))"
| "parseRef n e st r =
     (let schemaName = getRefName r; typeName = formatSchemaName e schemaName
      in case refSchema n e st schemaName typeName of
           Inl err \<Rightarrow> Inl err
         | Inr st1 \<Rightarrow> Inr (typeName, st1))"
| "parseSchemaItem n e st schemaItem =
     (if isRef schemaItem then parseRef n e st (ref schemaItem)
      else
        (case combineSchemas schemaItem of
           Some cs \<Rightarrow>
             (case parseSchemaItems n e st cs of
                Inl err \<Rightarrow> Inl err
              | Inr (ts, st1) \<Rightarrow>
                  (let combineType = join (if allOf schemaItem \<noteq> None then '' & '' else '' | '') ts
                   in Inr (if combineType \<noteq> [] then ''('' @ combineType @ '') | null'' else [], st1)))
         | None \<Rightarrow>
             (if stype schemaItem = TypeName ''integer'' then Inr (''number'', st)
              else if stype schemaItem = TypeName ''string'' then
                (case enum schemaItem of
                   Some vs \<Rightarrow> Inr (enumType vs, st)
                 | None \<Rightarrow> Inr (''string'', st))
              else if stype schemaItem = TypeName ''array'' then
                (case items schemaItem of
                   NoItems \<Rightarrow> Inl TypeError
                 | Item i \<Rightarrow>
                     (case parseSchemaItem n e st i of
                        Inl err \<Rightarrow> Inl err
                      | Inr (t, st1) \<Rightarrow> Inr (t @ ''[]'', st1))
                 | Items xs \<Rightarrow> Inr ([] @ ''[]'', st))
              else if stype schemaItem = TypeName ''object'' then
                (case parseSchemaItemObject n e st schemaItem of
                   Inl err \<Rightarrow> Inl err
                 | Inr (a, st1) \<Rightarrow>
                     (case parseSchemaItemAdditional n e st1 schemaItem of
                        Inl err \<Rightarrow> Inl err
                      | Inr (b, st2) \<Rightarrow> Inr (a @ b, st2)))
              else Inr (typeNames (stype schemaItem), st))))"
| "parseSchemaItems n e st [] = Inr ([], st)"
| "parseSchemaItems n e st (item # rest) =
     (case parseSchemaItem n e st item of
        Inl err \<Rightarrow> Inl err
      | Inr (t, st1) \<Rightarrow>
          (case parseSchemaItems n e st1 rest of
             Inl err \<Rightarrow> Inl err
           | Inr (ts, st2) \<Rightarrow> Inr (t # ts, st2)))"
| "parseSchemaItemAdditional n e st schemaItem =
     (case additionalProperties schemaItem of
        NoAdditional \<Rightarrow> Inr ([], st)
      | AdditionalBool b \<Rightarrow> if b then Inr ('' & '' @ ''{[P:string]: any}'', st) else Inr ([], st)
      | AdditionalSchema additional \<Rightarrow>
          (case parseSchemaItem n e st additional of
             Inl err \<Rightarrow> Inl err
           | Inr (t, st1) \<Rightarrow> Inr ('' & '' @ t, st1)))"
| "parseSchemaItemObject n e st schemaItem =
     (case parseProps n e st (case properties schemaItem of Some props \<Rightarrow> props | None \<Rightarrow> [])
             ''{\<newline>'' of
        Inl err \<Rightarrow> Inl err
      | Inr (template, st1) \<Rightarrow> Inr (template @ ''}\<newline>'', st1))"
| "parseProps n e st [] template = Inr (template, st)"
| "parseProps n e st ((key, propItem) # rest) template =
     (case parseSchemaItem n e st propItem of
        Inl err \<Rightarrow> Inl err
      | Inr (propType, st1) \<Rightarrow> parseProps n e st1 rest (propLine e key propItem propType template))"
  by pat_completeness auto
termination
  apply (relation "inv_image (less_than <*lex*> less_than <*lex*> less_than)
    (\<lambda>x. case x of
       Inl (Inl (n, e, st, sn, tn)) \<Rightarrow> (n, 0, 0)
     | Inl (Inr (Inl (n, e, st, r))) \<Rightarrow> (n, 0, 1)
     | Inl (Inr (Inr (n, e, st, s))) \<Rightarrow> (n, size s, 2)
     | Inr (Inl (Inl (n, e, st, xs))) \<Rightarrow> (n, size_list size xs, 3)
     | Inr (Inl (Inr (n, e, st, s))) \<Rightarrow> (n, size s, 1)
     | Inr (Inr (Inl (n, e, st, s))) \<Rightarrow> (n, size s, 1)
     | Inr (Inr (Inr (n, e, st, kvs, t))) \<Rightarrow> (n, size_list (size_prod (\<lambda>x. 0) size) kvs, 0))")
                      apply (auto simp: combineSchemas_def split: option.splits)
       apply (case_tac [!] schemaItem)
       apply auto
  done

section \<open>parse-schemas-v2.ts: the version 2 translator\<close>

text \<open>\<^verbatim>\<open>.replace(/\n$/, '')\<close>: a line feed that ends the string is dropped.\<close>

definition dropFinalNewline :: "string \<Rightarrow> string" where
  "dropFinalNewline t = (if t \<noteq> [] \<and> last t = CHR 0x0A then butlast t else t)"

text \<open>\<^verbatim>\<open>/[|&]/.test(t)\<close>\<close>

definition hasUnionOrIntersection :: "string \<Rightarrow> bool" where
  "hasUnionOrIntersection t = (CHR ''|'' \<in> set t \<or> CHR ''&'' \<in> set t)"

text \<open>
  \<^verbatim>\<open>parseSchemaItemAdditional\<close> of \<^verbatim>\<open>ParseSchemasV2\<close>. It hands
  \<^verbatim>\<open>additional.properties\<close>, the map from property names to schema nodes, to
  \<^verbatim>\<open>parseSchemaItem\<close> as if it were a node. What that call does depends on the
  property names only: a property called \<^verbatim>\<open>$ref\<close> makes \<^verbatim>\<open>getRefName\<close> call
  \<^verbatim>\<open>split\<close> on an object, one called \<^verbatim>\<open>allOf\<close>, \<^verbatim>\<open>oneOf\<close> or
  \<^verbatim>\<open>anyOf\<close> makes it call \<^verbatim>\<open>map\<close> on an object, and both throw; a property
  called \<^verbatim>\<open>type\<close> is returned as it is and becomes \<^verbatim>\<open>[object Object]\<close> in the
  concatenation; any other map translates to the empty string.
\<close>

definition parseSchemaItemAdditionalV2 :: "schema \<Rightarrow> error + string" where
  "parseSchemaItemAdditionalV2 schemaItem =
     (case additionalProperties schemaItem of
        NoAdditional \<Rightarrow> Inr []
      | AdditionalBool b \<Rightarrow> if b then Inr '' & {[P:string]: any}'' else Inr []
      | AdditionalSchema additional \<Rightarrow>
          (case properties additional of
             None \<Rightarrow> Inr []
           | Some props \<Rightarrow>
               if \<exists>k \<in> set [''$ref'', ''allOf'', ''oneOf'', ''anyOf'']. k \<in> fst ` set props
               then Inl TypeError
               else if ''type'' \<in> fst ` set props then Inr ('' & '' @ ''[object Object]'')
               else Inr ('' & '' @ [])))"

text \<open>
  The methods of \<^verbatim>\<open>ParseSchemasV2\<close> that call each other, as for version 3. The
  caller passes a node; \<^verbatim>\<open>if (!schemaItem) return ''\<close> is the case \<open>NoItems\<close> here,
  and the case of an absent \<^verbatim>\<open>schema\<close> in \<open>parseParamsSchemaV2\<close> below.
\<close>

function (sequential)
    refSchemaV2 :: "nat \<Rightarrow> env \<Rightarrow> pstate \<Rightarrow> string \<Rightarrow> string \<Rightarrow> error + pstate"
and parseRefV2 :: "nat \<Rightarrow> env \<Rightarrow> pstate \<Rightarrow> string \<Rightarrow> error + (string \<times> pstate)"
and parseSchemaItemV2 :: "nat \<Rightarrow> env \<Rightarrow> pstate \<Rightarrow> schema \<Rightarrow> error + (string \<times> pstate)"
and parseSchemaItemsV2 :: "nat \<Rightarrow> env \<Rightarrow> pstate \<Rightarrow> schema list \<Rightarrow> error + (string list \<times> pstate)"
and parseSchemaItemObjectV2 :: "nat \<Rightarrow> env \<Rightarrow> pstate \<Rightarrow> schema \<Rightarrow> error + (string \<times> pstate)"
and parsePropsV2 ::
      "nat \<Rightarrow> env \<Rightarrow> pstate \<Rightarrow> (string \<times> schema) list \<Rightarrow> string \<Rightarrow> error + (string \<times> pstate)"
where
  "refSchemaV2 n e st schemaName typeName =
     (case lookupSchema e schemaName of
        None \<Rightarrow> Inr st
      | Some schemaItem \<Rightarrow>
          if registered st typeName then Inr st
          else
            (case n of
               0 \<Rightarrow> Inl OutOfFuel
             | Suc m \<Rightarrow>
                 (case parseSchemaItemV2 m e (st\<lparr>refs := insert typeName (refs st)\<rparr>) schemaItem of
                    Inl err \<Rightarrow> Inl err
                  | Inr (schemaType, st1) \<Rightarrow>
                      (let st2 = st1\<lparr>interfacesTemplate :=
                                   interfacesTemplate st1 @ [Comment (getSchemaItemComment schemaItem)]\<rparr>
                       in if isInterface schemaItem
                          then Inr (st2\<lparr>interfacesTemplate :=
                                   interfacesTemplate st2 @ [Interface typeName schemaType]\<rparr>)
                          else Inr (st2\<lparr>typesTemplate :=
                                   typesTemplate st2 @ [TypeAlias typeName schemaType]\<rparr>)))))"
| "parseRefV2 n e st r =
     (let schemaName = getRefName r; typeName = formatSchemaName e schemaName
      in case refSchemaV2 n e st schemaName typeName of
           Inl err \<Rightarrow> Inl err
         | Inr st1 \<Rightarrow> Inr (typeName, st1))"
| "parseSchemaItemV2 n e st schemaItem =
     (if isRef schemaItem then parseRefV2 n e st (ref schemaItem)
      else
        (case combineSchemas schemaItem of
           Some cs \<Rightarrow>
             (case parseSchemaItemsV2 n e st cs of
                Inl err \<Rightarrow> Inl err
              | Inr (ts, st1) \<Rightarrow>
                  (let combineType = join (if allOf schemaItem \<noteq> None then '' & '' else '' | '') ts
                   in Inr (if combineType \<noteq> [] then ''('' @ combineType @ '') | null'' else [], st1)))
         | None \<Rightarrow>
             (if stype schemaItem = TypeName ''integer'' then Inr (''number'', st)
              else if stype schemaItem = TypeName ''string'' then
                (case enum schemaItem of
                   Some vs \<Rightarrow> Inr (enumType vs, st)
                 | None \<Rightarrow> Inr (''string'', st))
              else if stype schemaItem = TypeName ''file'' then Inr (''File'', st)
              else if stype schemaItem = TypeName ''array'' then
                (case (case items schemaItem of
                         Items xs \<Rightarrow>
                           (case parseSchemaItemsV2 n e st xs of
                              Inl err \<Rightarrow> Inl err
                            | Inr (ts, st1) \<Rightarrow> Inr (join '' | '' ts, st1))
                       | Item i \<Rightarrow>
                           (case parseSchemaItemV2 n e st i of
                              Inl err \<Rightarrow> Inl err
                            | Inr (t, st1) \<Rightarrow> Inr (dropFinalNewline t, st1))
                       | NoItems \<Rightarrow> Inr (dropFinalNewline [], st)) of
                   Inl err \<Rightarrow> Inl err
                 | Inr (t, st1) \<Rightarrow>
                     (let t1 = (if hasUnionOrIntersection t then ''('' @ t @ '')'' else t)
                      in Inr (t1 @ ''[]'', st1)))
              else if stype schemaItem = TypeName ''object'' then
                (case parseSchemaItemObjectV2 n e st schemaItem of
                   Inl err \<Rightarrow> Inl err
                 | Inr (a, st1) \<Rightarrow>
                     (case parseSchemaItemAdditionalV2 schemaItem of
                        Inl err \<Rightarrow> Inl err
                      | Inr b \<Rightarrow> Inr (a @ b, st1)))
              else Inr (typeNames (stype schemaItem), st))))"
| "parseSchemaItemsV2 n e st [] = Inr ([], st)"
| "parseSchemaItemsV2 n e st (item # rest) =
     (case parseSchemaItemV2 n e st item of
        Inl err \<Rightarrow> Inl err
      | Inr (t, st1) \<Rightarrow>
          (case parseSchemaItemsV2 n e st1 rest of
             Inl err \<Rightarrow> Inl err
           | Inr (ts, st2) \<Rightarrow> Inr (t # ts, st2)))"
| "parseSchemaItemObjectV2 n e st schemaItem =
     (case parsePropsV2 n e st (case properties schemaItem of Some props \<Rightarrow> props | None \<Rightarrow> [])
             ''{\<newline>'' of
        Inl err \<Rightarrow> Inl err
      | Inr (template, st1) \<Rightarrow> Inr (template @ ''}\<newline>'', st1))"
| "parsePropsV2 n e st [] template = Inr (template, st)"
| "parsePropsV2 n e st ((key, propItem) # rest) template =
     (case parseSchemaItemV2 n e st propItem of
        Inl err \<Rightarrow> Inl err
      | Inr (propType, st1) \<Rightarrow> parsePropsV2 n e st1 rest (propLine e key propItem propType template))"
  by pat_completeness auto
termination
  apply (relation "inv_image (less_than <*lex*> less_than <*lex*> less_than)
    (\<lambda>x. case x of
       Inl (Inl (n, e, st, sn, tn)) \<Rightarrow> (n, 0, 0)
     | Inl (Inr (Inl (n, e, st, r))) \<Rightarrow> (n, 0, 1)
     | Inl (Inr (Inr (n, e, st, s))) \<Rightarrow> (n, size s, 2)
     | Inr (Inl (n, e, st, xs)) \<Rightarrow> (n, size_list size xs, 3)
     | Inr (Inr (Inl (n, e, st, s))) \<Rightarrow> (n, size s, 1)
     | Inr (Inr (Inr (n, e, st, kvs, t))) \<Rightarrow> (n, size_list (size_prod (\<lambda>x. 0) size) kvs, 0))")
                      apply (auto simp: combineSchemas_def split: option.splits)
       apply (case_tac [!] schemaItem)
       apply auto
  done

section \<open>parse-schemas.ts: parameters, request body, response and paths\<close>

text \<open>
  The result of \<^verbatim>\<open>parseParamsSchema\<close>. What \<^verbatim>\<open>console.log\<close> prints is not part of
  the state of the instance: the functions below return, next to their result, the list
  of the parameters they logged.
\<close>

record paramsSchema =
  path :: string
  query :: string

text \<open>The text of one parameter line, \<^verbatim>\<open>propType\<close>, from the translated type.\<close>

definition paramLine :: "env \<Rightarrow> param \<Rightarrow> string \<Rightarrow> string" where
  "paramLine e paramItem t =
     ''  '' @ toSafePropKeyFrom e (p_name paramItem) FromParam @ '': '' @ t @
     joinComment (description (p_node paramItem)) @ ''\<newline>''"

text \<open>\<^verbatim>\<open>buf = buf || '{\n'; buf += propType\<close>\<close>

definition appendLine :: "string \<Rightarrow> string \<Rightarrow> string" where
  "appendLine buf propType = (if buf \<noteq> [] then buf else ''{\<newline>'') @ propType"

text \<open>\<^verbatim>\<open>if (buf) { buf += '}'; }\<close>\<close>

definition closeBlock :: "string \<Rightarrow> string" where
  "closeBlock buf = (if buf \<noteq> [] then buf @ ''}'' else buf)"

text \<open>The loop \<^verbatim>\<open>for (const paramItem of list)\<close> of \<^verbatim>\<open>parseParamsSchema\<close>.\<close>

fun parseParams ::
  "nat \<Rightarrow> env \<Rightarrow> pstate \<Rightarrow> param list \<Rightarrow> paramsSchema \<Rightarrow> param list \<Rightarrow>
     error + (paramsSchema \<times> param list \<times> pstate)" where
  "parseParams n e st [] acc console = Inr (acc, console, st)"
| "parseParams n e st (paramItem # rest) acc console =
     (if isRef (p_node paramItem) then parseParams n e st rest acc (console @ [paramItem])
      else
        (case parseSchemaItem n e st
                (case p_schema paramItem of Some s \<Rightarrow> s | None \<Rightarrow> emptySchema) of
           Inl err \<Rightarrow> Inl err
         | Inr (t, st1) \<Rightarrow>
             (let propType = paramLine e paramItem t
              in parseParams n e st1 rest
                   (if p_in paramItem = ''path'' then acc\<lparr>path := appendLine (path acc) propType\<rparr>
                    else if p_in paramItem = ''query'' then acc\<lparr>query := appendLine (query acc) propType\<rparr>
                    else acc)
                   console)))"

definition parseParamsSchema ::
  "nat \<Rightarrow> env \<Rightarrow> pstate \<Rightarrow> operation \<Rightarrow> error + (paramsSchema \<times> param list \<times> pstate)" where
  "parseParamsSchema n e st operationItem =
     (case parseParams n e st (parameters operationItem) \<lparr>path = [], query = []\<rparr> [] of
        Inl err \<Rightarrow> Inl err
      | Inr (acc, console, st1) \<Rightarrow>
          Inr (\<lparr>path = closeBlock (path acc), query = closeBlock (query acc)\<rparr>, console, st1))"

text \<open>\<^verbatim>\<open>body?.content?.['application/json']?.schema || {}\<close>\<close>

definition jsonContentSchema :: "body option \<Rightarrow> schema" where
  "jsonContentSchema b =
     (case b of
        None \<Rightarrow> emptySchema
      | Some c \<Rightarrow>
          (case map_of (b_content c) ''application/json'' of
             Some (Some s) \<Rightarrow> s
           | _ \<Rightarrow> emptySchema))"

definition parseRequestBodySchema ::
  "nat \<Rightarrow> env \<Rightarrow> pstate \<Rightarrow> operation \<Rightarrow> error + (string \<times> pstate)" where
  "parseRequestBodySchema n e st operationItem =
     (case requestBody operationItem of
        Some b \<Rightarrow>
          if b_ref b \<noteq> [] then parseRef n e st (b_ref b)
          else parseSchemaItem n e st (jsonContentSchema (Some b))
      | None \<Rightarrow> parseSchemaItem n e st (jsonContentSchema None))"

definition parseResponseSchema ::
  "nat \<Rightarrow> env \<Rightarrow> pstate \<Rightarrow> operation \<Rightarrow> error + (string \<times> pstate)" where
  "parseResponseSchema n e st operationItem =
     (case map_of (responses operationItem) ''200'' of
        Some res \<Rightarrow>
          if b_ref res \<noteq> [] then parseRef n e st (b_ref res)
          else parseSchemaItem n e st (jsonContentSchema (Some res))
      | None \<Rightarrow> parseSchemaItem n e st (jsonContentSchema None))"

text \<open>
  \<^verbatim>\<open>pathItemKey.toUpperCase() in HttpMethods\<close>: the four keys of the object literal,
  or a key it inherits.
\<close>

definition HttpMethods :: "string list" where
  "HttpMethods = [''GET'', ''PUT'', ''POST'', ''DELETE'']"

definition inHttpMethods :: "nat list \<Rightarrow> bool" where
  "inHttpMethods k = (k \<in> set (map units HttpMethods) \<or> k \<in> set (map units objectPrototypeKeys))"

text \<open>\<^verbatim>\<open>operationItem.tags?.[0] || 'main'\<close>\<close>

definition firstTag :: "operation \<Rightarrow> string" where
  "firstTag operationItem =
     (case op_tags operationItem of
        [] \<Rightarrow> ''main''
      | t # _ \<Rightarrow> if t \<noteq> [] then t else ''main'')"

text \<open>
  \<^verbatim>\<open>.replace(new RegExp(`(${tag}_)?(${method})?`, 'i'), '')\<close>. When neither the tag
  nor the method holds a character with a meaning in a regular expression
  (\<open>literalPattern\<close>), the pattern is two optional groups of plain characters: it
  matches at index 0, and there the first group takes \<^verbatim>\<open>tag_\<close> when the string
  starts with it and the second takes the method when what is left starts with it,
  characters compared as the flag \<^verbatim>\<open>i\<close> compares them
  (\<open>removeDuplicatePrefix\<close>). For any other tag the pattern is what the engine of the
  runtime makes of the source text, and the result is the engine's: the new string, or a
  \<^verbatim>\<open>SyntaxError\<close> when the source is not a pattern.
\<close>

definition regExpSyntaxChars :: string where
  "regExpSyntaxChars = ''^$.*+?()[]{}|'' @ [CHR 0x5C]"

definition literalPattern :: "string \<Rightarrow> bool" where
  "literalPattern p = (\<forall>c \<in> set p. c \<notin> set regExpSyntaxChars)"

definition startsWithIgnoreCase :: "string \<Rightarrow> string \<Rightarrow> bool" where
  "startsWithIgnoreCase p s =
     (length p \<le> length s \<and> map canonicalize (take (length p) s) = map canonicalize p)"

definition dropPrefixIgnoreCase :: "string \<Rightarrow> string \<Rightarrow> string" where
  "dropPrefixIgnoreCase p s = (if startsWithIgnoreCase p s then drop (length p) s else s)"

definition removeDuplicatePrefix :: "string \<Rightarrow> string \<Rightarrow> string \<Rightarrow> string" where
  "removeDuplicatePrefix tag key s = dropPrefixIgnoreCase key (dropPrefixIgnoreCase (tag @ ''_'') s)"

definition duplicatePrefixPattern :: "string \<Rightarrow> string \<Rightarrow> string" where
  "duplicatePrefixPattern tag key = ''('' @ tag @ ''_)?('' @ key @ '')?''"

definition replaceDuplicatePrefix :: "env \<Rightarrow> string \<Rightarrow> string \<Rightarrow> string \<Rightarrow> error + string" where
  "replaceDuplicatePrefix e tag key s =
     (if literalPattern tag \<and> literalPattern key then Inr (removeDuplicatePrefix tag key s)
      else
        (case regExpReplace e (duplicatePrefixPattern tag key) s of
           None \<Rightarrow> Inl SyntaxError
         | Some replaced \<Rightarrow> Inr replaced))"

text \<open>The name of the request function, as \<^verbatim>\<open>parsePaths\<close> of \<^verbatim>\<open>ParseSchemas\<close> builds it.\<close>

definition operationName :: "env \<Rightarrow> string \<Rightarrow> string \<Rightarrow> string \<Rightarrow> operation \<Rightarrow> error + string" where
  "operationName e tag key u operationItem =
     (case replaceDuplicatePrefix e tag key
             (if operationId operationItem \<noteq> [] then operationId operationItem
              else (case urlToNameReplacer (config e) of Some f \<Rightarrow> f u | None \<Rightarrow> u)) of
        Inl err \<Rightarrow> Inl err
      | Inr replaced \<Rightarrow> Inr (key @ pascalCase e replaced))"

text \<open>
  \<^verbatim>\<open>const requestItems = tags[tag] || (tags[tag] = []); requestItems.push(item)\<close>.
  For a tag that names a property of \<^verbatim>\<open>Object.prototype\<close> the read finds the inherited
  value, which has no \<^verbatim>\<open>push\<close>, and the call throws.
\<close>

definition pushItem :: "pstate \<Rightarrow> string \<Rightarrow> requestItem \<Rightarrow> error + pstate" where
  "pushItem st tag item =
     (if tag \<in> set objectPrototypeKeys then Inl TypeError
      else if tag \<in> fst ` set (tags st)
      then Inr (st\<lparr>tags := map (\<lambda>(k, requestItems). if k = tag then (k, requestItems @ [item])
                                                       else (k, requestItems)) (tags st)\<rparr>)
      else Inr (st\<lparr>tags := tags st @ [(tag, [item])]\<rparr>))"

text \<open>The body of the inner loop of \<^verbatim>\<open>parsePaths\<close>, for one key of a path item.\<close>

definition parseOperation ::
  "nat \<Rightarrow> env \<Rightarrow> pstate \<Rightarrow> string \<Rightarrow> string \<Rightarrow> operation \<Rightarrow> param list \<Rightarrow>
     error + (param list \<times> pstate)" where
  "parseOperation n e st u pathItemKey operationItem console =
     (if \<not> inHttpMethods (toUpperCase pathItemKey) then Inr (console, st)
      else
        (let tag = firstTag operationItem in
         if \<not> validate (newTagValidator (cfg_include (config e)) (cfg_exclude (config e))) tag
         then Inr (console, st)
         else
           (case operationName e tag pathItemKey u operationItem of
              Inl err \<Rightarrow> Inl err
            | Inr functionName \<Rightarrow>
           (case parseParamsSchema n e st operationItem of
              Inl err \<Rightarrow> Inl err
            | Inr (paramsSchema, logged, st1) \<Rightarrow>
                (case parseRequestBodySchema n e st1 operationItem of
                   Inl err \<Rightarrow> Inl err
                 | Inr (bodyType, st2) \<Rightarrow>
                     (case parseResponseSchema n e st2 operationItem of
                        Inl err \<Rightarrow> Inl err
                      | Inr (resType, st3) \<Rightarrow>
                          (case pushItem st3 tag
                                  \<lparr> name = functionName,
                                    url = u,
                                    item_method = pathItemKey,
                                    item_description = op_description operationItem,
                                    requestQueryType = query paramsSchema,
                                    requestPathType = path paramsSchema,
                                    requestBodyType = bodyType,
                                    requestBodyTypeIsFormData = None,
                                    responseType = resType \<rparr> of
                             Inl err \<Rightarrow> Inl err
                           | Inr st4 \<Rightarrow> Inr (console @ logged, st4))))))))"

fun parsePathItem ::
  "nat \<Rightarrow> env \<Rightarrow> pstate \<Rightarrow> string \<Rightarrow> (string \<times> operation) list \<Rightarrow> param list \<Rightarrow>
     error + (param list \<times> pstate)" where
  "parsePathItem n e st u [] console = Inr (console, st)"
| "parsePathItem n e st u ((pathItemKey, operationItem) # rest) console =
     (case parseOperation n e st u pathItemKey operationItem console of
        Inl err \<Rightarrow> Inl err
      | Inr (console1, st1) \<Rightarrow> parsePathItem n e st1 u rest console1)"

fun parsePathsFrom ::
  "nat \<Rightarrow> env \<Rightarrow> pstate \<Rightarrow> (string \<times> (string \<times> operation) list) list \<Rightarrow> param list \<Rightarrow>
     error + (param list \<times> pstate)" where
  "parsePathsFrom n e st [] console = Inr (console, st)"
| "parsePathsFrom n e st ((u, pathItem) # rest) console =
     (case parsePathItem n e st u pathItem console of
        Inl err \<Rightarrow> Inl err
      | Inr (console1, st1) \<Rightarrow> parsePathsFrom n e st1 rest console1)"

text \<open>\<^verbatim>\<open>parsePaths()\<close>, run on the state \<open>st\<close> of the instance.\<close>

definition parsePaths :: "nat \<Rightarrow> env \<Rightarrow> pstate \<Rightarrow> error + (param list \<times> pstate)" where
  "parsePaths n e st = parsePathsFrom n e st (paths (doc e)) []"

section \<open>parse-schemas-v2.ts: parameters, response and paths\<close>

record paramsSchemaV2 = paramsSchema +
  body :: string
  isFormDataBody :: bool

text \<open>
  The loop of \<^verbatim>\<open>parseParamsSchema\<close> of \<^verbatim>\<open>ParseSchemasV2\<close>. The node translated for
  the parameter line is \<^verbatim>\<open>paramItem.schema || paramItem\<close>. In \<^verbatim>\<open>case 'body'\<close> the
  statement is \<^verbatim>\<open>body += (body && body + ' & ') + this.parseSchemaItem(paramItem.schema)\<close>:
  the new value is the old one, followed by the parenthesis, followed by the translation.
\<close>

fun parseParamsV2 ::
  "nat \<Rightarrow> env \<Rightarrow> pstate \<Rightarrow> param list \<Rightarrow> paramsSchemaV2 \<Rightarrow> param list \<Rightarrow>
     error + (paramsSchemaV2 \<times> param list \<times> pstate)" where
  "parseParamsV2 n e st [] acc console = Inr (acc, console, st)"
| "parseParamsV2 n e st (paramItem # rest) acc console =
     (if isRef (p_node paramItem) then parseParamsV2 n e st rest acc (console @ [paramItem])
      else
        (case parseSchemaItemV2 n e st
                (case p_schema paramItem of Some s \<Rightarrow> s | None \<Rightarrow> p_node paramItem) of
           Inl err \<Rightarrow> Inl err
         | Inr (t, st1) \<Rightarrow>
             (let propType = paramLine e paramItem t in
              if p_in paramItem = ''path''
              then parseParamsV2 n e st1 rest (acc\<lparr>path := appendLine (path acc) propType\<rparr>) console
              else if p_in paramItem = ''query''
              then parseParamsV2 n e st1 rest (acc\<lparr>query := appendLine (query acc) propType\<rparr>) console
              else if p_in paramItem = ''formData''
              then parseParamsV2 n e st1 rest
                     (acc\<lparr>body := appendLine (body acc) propType, isFormDataBody := True\<rparr>) console
              else if p_in paramItem = ''body'' \<and> p_name paramItem = ''root''
              then
                (case (case p_schema paramItem of
                         None \<Rightarrow> Inr ([], st1)
                       | Some s \<Rightarrow> parseSchemaItemV2 n e st1 s) of
                   Inl err \<Rightarrow> Inl err
                 | Inr (t2, st2) \<Rightarrow>
                     parseParamsV2 n e st2 rest
                       (acc\<lparr>body := body acc @
                                     ((if body acc \<noteq> [] then body acc @ '' & '' else []) @ t2)\<rparr>)
                       console)
              else parseParamsV2 n e st1 rest acc console)))"

definition parseParamsSchemaV2 ::
  "nat \<Rightarrow> env \<Rightarrow> pstate \<Rightarrow> operation \<Rightarrow> error + (paramsSchemaV2 \<times> param list \<times> pstate)" where
  "parseParamsSchemaV2 n e st operationItem =
     (case parseParamsV2 n e st (parameters operationItem)
             \<lparr>path = [], query = [], body = [], isFormDataBody = False\<rparr> [] of
        Inl err \<Rightarrow> Inl err
      | Inr (acc, console, st1) \<Rightarrow>
          Inr (\<lparr>path = closeBlock (path acc), query = closeBlock (query acc),
                body = (if isFormDataBody acc then ''FormData | '' @ body acc @ ''}'' else body acc),
                isFormDataBody = isFormDataBody acc\<rparr>, console, st1))"

text \<open>\<^verbatim>\<open>res?.schema || {}\<close>\<close>

definition responseSchemaV2 :: "body option \<Rightarrow> schema" where
  "responseSchemaV2 res =
     (case res of
        None \<Rightarrow> emptySchema
      | Some r \<Rightarrow> (case b_schema r of Some s \<Rightarrow> s | None \<Rightarrow> emptySchema))"

definition parseResponseSchemaV2 ::
  "nat \<Rightarrow> env \<Rightarrow> pstate \<Rightarrow> operation \<Rightarrow> error + (string \<times> pstate)" where
  "parseResponseSchemaV2 n e st operationItem =
     (case map_of (responses operationItem) ''200'' of
        Some res \<Rightarrow>
          if b_ref res \<noteq> [] then parseRefV2 n e st (b_ref res)
          else parseSchemaItemV2 n e st (responseSchemaV2 (Some res))
      | None \<Rightarrow> parseSchemaItemV2 n e st (responseSchemaV2 None))"

text \<open>
  \<^verbatim>\<open>mergeManualTypes(item, manualTypes)\<close>. It is an \<^verbatim>\<open>async\<close> function and is
  called inside the loop of \<^verbatim>\<open>parsePaths\<close>: an override that is a value is assigned at
  once, an override that is a function is called at once, with the item as it is then,
  and its result is assigned when the loop has ended. Nothing reads the item in between,
  so the assignments are made here, the pending ones last.
\<close>

definition setSlot :: "typeSlot \<Rightarrow> string \<Rightarrow> requestItem \<Rightarrow> requestItem" where
  "setSlot k t item =
     (case k of
        SlotQuery \<Rightarrow> item\<lparr>requestQueryType := t\<rparr>
      | SlotPath \<Rightarrow> item\<lparr>requestPathType := t\<rparr>
      | SlotBody \<Rightarrow> item\<lparr>requestBodyType := t\<rparr>
      | SlotResponse \<Rightarrow> item\<lparr>responseType := t\<rparr>)"

text \<open>\<^verbatim>\<open>if (typeof t === 'object') { t = jsonToType(t); }\<close>\<close>

definition manualText :: "manualValue \<Rightarrow> string" where
  "manualText v =
     (case v of
        ManualString s \<Rightarrow> s
      | ManualArray xs \<Rightarrow> jsonToType (JArr xs)
      | ManualObject kvs \<Rightarrow> jsonToType (JObj kvs))"

fun mergeManualTypesLoop ::
  "requestItem \<Rightarrow> (typeSlot \<times> manualType) list \<Rightarrow> (typeSlot \<times> string) list \<Rightarrow>
     requestItem \<times> (typeSlot \<times> string) list" where
  "mergeManualTypesLoop item [] pending = (item, pending)"
| "mergeManualTypesLoop item ((k, ManualValue v) # rest) pending =
     (if v \<noteq> ManualString []
      then mergeManualTypesLoop (setSlot k (manualText v) item) rest pending
      else mergeManualTypesLoop item rest pending)"
| "mergeManualTypesLoop item ((k, ManualFunction f) # rest) pending =
     mergeManualTypesLoop item rest (pending @ [(k, manualText (f item))])"

definition mergeManualTypes :: "requestItem \<Rightarrow> (typeSlot \<times> manualType) list \<Rightarrow> requestItem" where
  "mergeManualTypes item overrides =
     (case mergeManualTypesLoop item overrides [] of
        (item1, pending) \<Rightarrow> foldl (\<lambda>it (k, t). setSlot k t it) item1 pending)"

text \<open>The body of the inner loop of \<^verbatim>\<open>parsePaths\<close> of \<^verbatim>\<open>ParseSchemasV2\<close>.\<close>

definition parseOperationV2 ::
  "nat \<Rightarrow> env \<Rightarrow> pstate \<Rightarrow> string \<Rightarrow> string \<Rightarrow> operation \<Rightarrow> param list \<Rightarrow>
     error + (param list \<times> pstate)" where
  "parseOperationV2 n e st u pathItemKey operationItem console =
     (if \<not> inHttpMethods (toUpperCase pathItemKey) then Inr (console, st)
      else
        (let urlName = (case urlToNameReplacer (config e) of Some f \<Rightarrow> f u | None \<Rightarrow> u);
             tag = (case getTag (config e) of
                      Some g \<Rightarrow> g urlName pathItemKey operationItem
                    | None \<Rightarrow> firstTag operationItem)
         in
         if \<not> validate (newTagValidator (cfg_include (config e)) (cfg_exclude (config e))) tag
         then Inr (console, st)
         else
           (case parseParamsSchemaV2 n e st operationItem of
              Inl err \<Rightarrow> Inl err
            | Inr (paramsSchema, logged, st1) \<Rightarrow>
                (case parseResponseSchemaV2 n e st1 operationItem of
                   Inl err \<Rightarrow> Inl err
                 | Inr (resType, st2) \<Rightarrow>
                     (let item = \<lparr> name = pathItemKey @ pascalCase e urlName,
                                    url = u,
                                    item_method = pathItemKey,
                                    item_description = op_description operationItem,
                                    requestQueryType = query paramsSchema,
                                    requestPathType = path paramsSchema,
                                    requestBodyType = body paramsSchema,
                                    requestBodyTypeIsFormData = Some (isFormDataBody paramsSchema),
                                    responseType = resType \<rparr>
                      in case pushItem st2 tag
                                (case manualTypes (config e) u pathItemKey of
                                   Some overrides \<Rightarrow> mergeManualTypes item overrides
                                 | None \<Rightarrow> item) of
                           Inl err \<Rightarrow> Inl err
                         | Inr st3 \<Rightarrow> Inr (console @ logged, st3))))))"

fun parsePathItemV2 ::
  "nat \<Rightarrow> env \<Rightarrow> pstate \<Rightarrow> string \<Rightarrow> (string \<times> operation) list \<Rightarrow> param list \<Rightarrow>
     error + (param list \<times> pstate)" where
  "parsePathItemV2 n e st u [] console = Inr (console, st)"
| "parsePathItemV2 n e st u ((pathItemKey, operationItem) # rest) console =
     (case parseOperationV2 n e st u pathItemKey operationItem console of
        Inl err \<Rightarrow> Inl err
      | Inr (console1, st1) \<Rightarrow> parsePathItemV2 n e st1 u rest console1)"

fun parsePathsFromV2 ::
  "nat \<Rightarrow> env \<Rightarrow> pstate \<Rightarrow> (string \<times> (string \<times> operation) list) list \<Rightarrow> param list \<Rightarrow>
     error + (param list \<times> pstate)" where
  "parsePathsFromV2 n e st [] console = Inr (console, st)"
| "parsePathsFromV2 n e st ((u, pathItem) # rest) console =
     (case parsePathItemV2 n e st u pathItem console of
        Inl err \<Rightarrow> Inl err
      | Inr (console1, st1) \<Rightarrow> parsePathsFromV2 n e st1 rest console1)"

definition parsePathsV2 :: "nat \<Rightarrow> env \<Rightarrow> pstate \<Rightarrow> error + (param list \<times> pstate)" where
  "parsePathsV2 n e st = parsePathsFromV2 n e st (paths (doc e)) []"

section \<open>index.ts: the request function of one item\<close>















section \<open>Fixtures for the concrete runs\<close>

text \<open>
  A stand-in for \<^verbatim>\<open>pascalCase\<close> on ASCII text, used where a theorem below runs the
  model on a concrete document: a word starts after a character that is neither a letter
  nor a digit, and at a capital that follows a small letter; its first letter is
  capitalised and the separators are dropped.
\<close>

definition upperChar :: "char \<Rightarrow> char" where
  "upperChar c = (case map_of (zip lowerLetters upperLetters) c of Some u \<Rightarrow> u | None \<Rightarrow> c)"

definition lowerChar :: "char \<Rightarrow> char" where
  "lowerChar c = (case map_of (zip upperLetters lowerLetters) c of Some l \<Rightarrow> l | None \<Rightarrow> c)"

fun pascalFrom :: "bool \<Rightarrow> bool \<Rightarrow> string \<Rightarrow> string" where
  "pascalFrom start afterLower [] = []"
| "pascalFrom start afterLower (c # cs) =
     (if c \<in> set upperLetters then
        (if start \<or> afterLower then c else lowerChar c) # pascalFrom False False cs
      else if c \<in> set lowerLetters then
        (if start then upperChar c else c) # pascalFrom False True cs
      else if c \<in> set digits then c # pascalFrom False False cs
      else pascalFrom True False cs)"

definition pascalCaseAscii :: "string \<Rightarrow> string" where
  "pascalCaseAscii s = pascalFrom True False s"

definition plainConfig :: docConfig where
  "plainConfig =
     \<lparr> cfg_name = ''main'', cfg_ssr = SsrOff, cfg_include = None, cfg_exclude = None,
       urlPrefix = [], removeUrlPrefix = [], customResponseReturnPath = [],
       propKeyReplacer = None, urlToNameReplacer = None, getTag = None,
       manualTypes = (\<lambda>u m. None) \<rparr>"

text \<open>
  A stand-in for the engine, used in the same way: it finds the empty match at the start
  of the string and removes nothing, which is what the engine answers for the pattern of
  \<open>duplicatePrefixPattern\<close> when neither of its two groups matches there.
\<close>

definition emptyMatch :: "string \<Rightarrow> string \<Rightarrow> string option" where
  "emptyMatch source s = Some s"

definition envOf :: "document \<Rightarrow> env" where
  "envOf d =
     \<lparr> pascalCase = pascalCaseAscii, regExpReplace = emptyMatch, doc = d, config = plainConfig \<rparr>"

definition typed :: "string \<Rightarrow> schema" where
  "typed t = Schema [] None None None (TypeName t) None NoItems None NoAdditional [] False"

definition refTo :: "string \<Rightarrow> schema" where
  "refTo r = Schema r None None None NoType None NoItems None NoAdditional [] False"

definition enumOf :: "string list \<Rightarrow> schema" where
  "enumOf vs = Schema [] None None None (TypeName ''string'') (Some vs) NoItems None NoAdditional [] False"

definition arrayOf :: "schema \<Rightarrow> schema" where
  "arrayOf s = Schema [] None None None (TypeName ''array'') None (Item s) None NoAdditional [] False"

definition objectOf :: "(string \<times> schema) list \<Rightarrow> schema" where
  "objectOf props =
     Schema [] None None None (TypeName ''object'') None NoItems (Some props) NoAdditional [] False"

definition paramOf :: "string \<Rightarrow> string \<Rightarrow> schema \<Rightarrow> param" where
  "paramOf n loc node = \<lparr> p_name = n, p_in = loc, p_schema = None, p_node = node \<rparr>"

definition bodyParam :: "string \<Rightarrow> schema \<Rightarrow> param" where
  "bodyParam n s = \<lparr> p_name = n, p_in = ''body'', p_schema = Some s, p_node = emptySchema \<rparr>"

definition operationOf :: "string \<Rightarrow> param list \<Rightarrow> operation" where
  "operationOf opId ps =
     \<lparr> op_tags = [], operationId = opId, op_description = [], parameters = ps,
       requestBody = None, responses = [] \<rparr>"

section \<open>Counting declarations\<close>

text \<open>
  \<open>declCount T st\<close> is the number of declarations named \<open>T\<close> in the two templates of
  the state. \<open>grows st st'\<close> says that \<open>st'\<close> has the registry of \<open>st\<close> and possibly
  more names, and one more declaration than \<open>st\<close> exactly for the names that are new;
  \<open>extends\<close> adds that the request items are the same. \<open>declaredOnce\<close> is the state
  of a pass in which every registered name has one declaration and no other name has one.
\<close>

fun declares :: "string \<Rightarrow> emitted \<Rightarrow> bool" where
  "declares T (Comment c) = False"
| "declares T (Interface typeName schemaType) = (typeName = T)"
| "declares T (TypeAlias typeName schemaType) = (typeName = T)"

definition declCount :: "string \<Rightarrow> pstate \<Rightarrow> nat" where
  "declCount T st =
     length (filter (declares T) (typesTemplate st)) +
     length (filter (declares T) (interfacesTemplate st))"

definition grows :: "pstate \<Rightarrow> pstate \<Rightarrow> bool" where
  "grows st st' \<longleftrightarrow>
     refs st \<subseteq> refs st' \<and>
     (\<forall>T. declCount T st' = declCount T st + (if T \<in> refs st' \<and> T \<notin> refs st then 1 else 0))"

definition extends :: "pstate \<Rightarrow> pstate \<Rightarrow> bool" where
  "extends st st' \<longleftrightarrow> tags st' = tags st \<and> grows st st'"


text \<open>
  The names the registry can come to hold: the formatted names of the schemas the
  document has. \<open>unregistered\<close> counts those not in the registry yet.
\<close>

definition schemaNames :: "env \<Rightarrow> string set" where
  "schemaNames e = {schemaName. lookupSchema e schemaName \<noteq> None}"

definition unregistered :: "env \<Rightarrow> pstate \<Rightarrow> nat" where
  "unregistered e st = card (formatSchemaName e ` schemaNames e - refs st)"

text \<open>
  A bound on the fuel that is always enough: the number of entries of
  \<^verbatim>\<open>components.schemas\<close> or \<^verbatim>\<open>definitions\<close>, and one for each inherited key.
\<close>

definition fuelBound :: "env \<Rightarrow> nat" where
  "fuelBound e =
     (case schemas (doc e) of
        None \<Rightarrow> 0
      | Some kvs \<Rightarrow> length kvs + length objectPrototypeKeys)"

text \<open>The document and the states of the concrete runs on references.\<close>

definition userRef :: string where
  "userRef = ''#/components/schemas/User''"

definition userEnv :: env where
  "userEnv =
     envOf \<lparr> schemas = Some [(''User'', objectOf [(''name'', typed ''string''), (''friend'', refTo userRef)])],
             paths = [] \<rparr>"


section \<open>The statements of the specification\<close>

text \<open>
  The tag filter as the specification words it: \<open>I\<close> and \<open>E\<close> are the include and
  exclude sets, a list that was not configured counting as the empty set.
\<close>

definition labelSet :: "string list option \<Rightarrow> nat list set" where
  "labelSet l = (case l of None \<Rightarrow> {} | Some xs \<Rightarrow> upperCase ` set xs)"

definition tagFilterSpec :: "nat list set \<Rightarrow> nat list set \<Rightarrow> nat list \<Rightarrow> bool" where
  "tagFilterSpec I E T = ((I = {} \<or> T \<in> I) \<and> \<not> (E \<noteq> {} \<and> T \<in> E))"

text \<open>
  Identifier-like keys as the specification words them: the key starts with a letter,
  \<^verbatim>\<open>$\<close> or an underscore and goes on with word characters only.
\<close>

definition identifierLike :: "string \<Rightarrow> bool" where
  "identifierLike key = (case key of [] \<Rightarrow> False | c # cs \<Rightarrow> isKeyHead c \<and> list_all isWordChar cs)"

text \<open>
  A parameter given as a reference, and the operation without such parameters.
\<close>

definition isRefParam :: "param \<Rightarrow> bool" where
  "isRefParam paramItem = isRef (p_node paramItem)"

definition withoutRefParams :: "operation \<Rightarrow> operation" where
  "withoutRefParams operationItem =
     operationItem\<lparr>parameters := filter (\<lambda>p. \<not> isRefParam p) (parameters operationItem)\<rparr>"

definition refParam :: param where
  "refParam = paramOf [] [] (refTo ''#/components/parameters/Page'')"

definition idParam :: param where
  "idParam = \<lparr> p_name = ''id'', p_in = ''path'', p_schema = Some (typed ''integer''), p_node = typed ''integer'' \<rparr>"

text \<open>
  The paths of a document without the path-item keys that are not one of the four
  methods, and all request items of a state.
\<close>

definition isMethodKey :: "string \<Rightarrow> bool" where
  "isMethodKey k = (toUpperCase k \<in> set (map units HttpMethods))"

definition onlyMethodKeys ::
  "(string \<times> (string \<times> operation) list) list \<Rightarrow> (string \<times> (string \<times> operation) list) list" where
  "onlyMethodKeys ps = map (\<lambda>(u, pathItem). (u, filter (\<lambda>(k, operationItem). isMethodKey k) pathItem)) ps"

definition requestItems :: "pstate \<Rightarrow> requestItem list" where
  "requestItems st = concat (map snd (tags st))"

text \<open>Every request item of the state was made for a method key.\<close>

definition methodItems :: "pstate \<Rightarrow> bool" where
  "methodItems st \<longleftrightarrow> (\<forall>item \<in> set (requestItems st). isMethodKey (item_method item))"

definition usersEnv :: env where
  "usersEnv =
     envOf \<lparr> schemas = None,
             paths = [(''/users'', [(''get'', operationOf ''listUsers'' []),
                                   (''patch'', operationOf ''patchUsers'' [])])] \<rparr>"

definition usersItem :: "string \<Rightarrow> requestItem" where
  "usersItem n =
     \<lparr> name = n, url = ''/users'', item_method = ''get'', item_description = [],
       requestQueryType = [], requestPathType = [], requestBodyType = [],
       requestBodyTypeIsFormData = None, responseType = [] \<rparr>"

text \<open>
  The source of a function name as the specification words it: the operation's explicit
  identifier or, absent that, the URL, passed through \<^verbatim>\<open>urlToNameReplacer\<close> when
  there is one; and the name of the URL alone.
\<close>

definition nameSource :: "env \<Rightarrow> string \<Rightarrow> operation \<Rightarrow> string" where
  "nameSource e u operationItem =
     (if operationId operationItem \<noteq> [] then operationId operationItem
      else (case urlToNameReplacer (config e) of Some f \<Rightarrow> f u | None \<Rightarrow> u))"

definition urlName :: "env \<Rightarrow> string \<Rightarrow> string" where
  "urlName e u = (case urlToNameReplacer (config e) of Some f \<Rightarrow> f u | None \<Rightarrow> u)"

text \<open>The tag of an operation in the version 2 translator.\<close>

definition tagV2 :: "env \<Rightarrow> string \<Rightarrow> string \<Rightarrow> operation \<Rightarrow> string" where
  "tagV2 e u k operationItem =
     (case getTag (config e) of
        Some g \<Rightarrow> g (urlName e u) k operationItem
      | None \<Rightarrow> firstTag operationItem)"

text \<open>Whether the tag filter of the configuration accepts a tag.\<close>

definition accepted :: "env \<Rightarrow> string \<Rightarrow> bool" where
  "accepted e tag = validate (newTagValidator (cfg_include (config e)) (cfg_exclude (config e))) tag"

text \<open>The last request item of a group.\<close>

definition lastItem :: "pstate \<Rightarrow> string \<Rightarrow> requestItem option" where
  "lastItem st tag =
     (case map_of (tags st) tag of
        None \<Rightarrow> None
      | Some pushed \<Rightarrow> if pushed = [] then None else Some (last pushed))"

definition petOperation :: operation where
  "petOperation = (operationOf ''pet_getPetById'' [])\<lparr>op_tags := [''pet'']\<rparr>"

text \<open>An operation whose tag holds characters with a meaning in a regular expression.\<close>

definition adminOperation :: operation where
  "adminOperation = (operationOf ''listUsers'' [])\<lparr>op_tags := [''User (admin)'']\<rparr>"

definition petItem :: "string \<Rightarrow> requestItem" where
  "petItem n =
     \<lparr> name = n, url = ''/pet/{id}'', item_method = ''get'', item_description = [],
       requestQueryType = [], requestPathType = [], requestBodyType = [],
       requestBodyTypeIsFormData = None, responseType = [] \<rparr>"

text \<open>A node that is one of several: \<^verbatim>\<open>{ oneOf: [...] }\<close>.\<close>

definition oneOfSchema :: "schema list \<Rightarrow> schema" where
  "oneOfSchema xs = Schema [] None (Some xs) None NoType None NoItems None NoAdditional [] False"


definition rootBodyParam :: "param \<Rightarrow> bool" where
  "rootBodyParam paramItem =
     (\<not> isRef (p_node paramItem) \<and> p_in paramItem = ''body'' \<and> p_name paramItem = ''root'')"













section \<open>Tag filter\<close>

lemmas char_tables = lowerLetters_def upperLetters_def digits_def

lemma validate_cases:
  "validate (newTagValidator inc exc) tag =
     ((case inc of None \<Rightarrow> True | Some xs \<Rightarrow> upperCase tag \<in> upperCase ` set xs) \<and>
      (case exc of None \<Rightarrow> True | Some xs \<Rightarrow> upperCase tag \<notin> upperCase ` set xs))"
  by (auto simp: validate_def newTagValidator_def Let_def split: option.splits)

text \<open>
  C2, as the code has it: a tag is accepted if and only if no include list is configured
  or the upper-cased tag is in the upper-cased include list, and it is not the case that
  an exclude list is configured and holds the upper-cased tag. A configured include list
  that is empty rejects every tag. Two tags with the same upper-case form get the same
  answer, and with neither list configured every tag is accepted.
\<close>

theorem validate_policy:
  "(validate (newTagValidator inc exc) tag =
      ((inc = None \<or> upperCase tag \<in> labelSet inc) \<and>
       \<not> (exc \<noteq> None \<and> upperCase tag \<in> labelSet exc))) \<and>
   \<not> validate (newTagValidator (Some []) exc) tag \<and>
   (upperCase tag = upperCase tag' \<longrightarrow>
      validate (newTagValidator inc exc) tag = validate (newTagValidator inc exc) tag') \<and>
   validate (newTagValidator None None) tag"
  by (auto simp: validate_cases labelSet_def split: option.splits)

theorem validate_policy_witness:
  "upperCase ''Article'' = upperCase ''ARTICLE'' \<and>
   validate (newTagValidator (Some [''article'']) (Some [''internal''])) ''Article'' \<and>
   validate (newTagValidator (Some [''article'']) (Some [''internal''])) ''ARTICLE'' \<and>
   \<not> validate (newTagValidator (Some []) (Some [''internal''])) ''Article''"
proof -
  have same: "upperCase ''Article'' = upperCase ''ARTICLE''"
    by code_simp
  have mem: "upperCase ''Article'' \<in> labelSet (Some [''article''])"
    "upperCase ''Article'' \<notin> labelSet (Some [''internal''])"
    by code_simp+
  note pol = validate_policy [of "Some [''article'']" "Some [''internal'']" "''Article''" "''ARTICLE''"]
  from pol mem have acc: "validate (newTagValidator (Some [''article'']) (Some [''internal''])) ''Article''"
    by blast
  from pol same have eq: "validate (newTagValidator (Some [''article'']) (Some [''internal''])) ''Article'' =
      validate (newTagValidator (Some [''article'']) (Some [''internal''])) ''ARTICLE''"
    by blast
  from pol have rej: "\<not> validate (newTagValidator (Some []) (Some [''internal''])) ''Article''"
    by blast
  from same acc eq rej show ?thesis by blast
qed

theorem validate_empty_include_counterexample:
  "validate (newTagValidator (Some []) None) ''Article'' \<noteq>
     tagFilterSpec (labelSet (Some [])) (labelSet None) (upperCase ''Article'')"
  by (simp add: validate_cases tagFilterSpec_def labelSet_def)

section \<open>Safe property keys\<close>

lemma keyTail_iff: "keyTail cs \<longleftrightarrow> cs \<noteq> [] \<and> list_all isWordChar cs"
  by (induction cs rule: keyTail.induct) (auto simp: isWordChar_def)

lemma safeKeyPattern_iff:
  "safeKeyPattern key \<longleftrightarrow> identifierLike key \<and> length key \<noteq> 1"
  by (cases key) (auto simp: safeKeyPattern_def identifierLike_def keyTail_iff)

lemma toSafePropKey_unchanged_iff:
  "toSafePropKey key = key \<longleftrightarrow> identifierLike key \<and> length key \<noteq> 1"
  by (simp add: toSafePropKey_def safeKeyPattern_iff)

lemma toSafePropKey_quoted:
  "\<not> (identifierLike key \<and> length key \<noteq> 1) \<Longrightarrow>
     toSafePropKey key = [CHR 0x27] @ key @ [CHR 0x27]"
  by (simp add: toSafePropKey_def safeKeyPattern_iff)

text \<open>
  C7 at the key \<^verbatim>\<open>a\<close>: the key is identifier-like, and \<^verbatim>\<open>toSafePropKey\<close>
  returns it wrapped in single quotes, because the pattern asks for at least one
  character after the first. The same holds for \<^verbatim>\<open>$\<close> and \<^verbatim>\<open>_\<close>.
\<close>

theorem toSafePropKey_single_char:
  "identifierLike ''a'' \<and> toSafePropKey ''a'' = [CHR 0x27, CHR ''a'', CHR 0x27] \<and>
   identifierLike ''$'' \<and> toSafePropKey ''$'' = [CHR 0x27, CHR ''$'', CHR 0x27] \<and>
   identifierLike ''_'' \<and> toSafePropKey ''_'' = [CHR 0x27, CHR ''_'', CHR 0x27] \<and>
   identifierLike ''ab'' \<and> toSafePropKey ''ab'' = ''ab''"
  by (simp add: toSafePropKey_def safeKeyPattern_def identifierLike_def isKeyHead_def
      isWordChar_def char_tables)

section \<open>Type inference from a JSON value\<close>

lemma jsonToType_null: "jsonToType JNull = ''any''" "jsonToType JUndefined = ''any''"
  by simp_all

lemma jsonToType_array:
  "jsonToType (JArr []) = ''any[]''"
  "jsonToType (JArr (x # xs)) = jsonToType x @ ''[]''"
  by simp_all

lemma jsonToType_object:
  "jsonToType (JObj []) = ''{[P:string]: any}''"
  "jsonToType (JObj ((k, v) # kvs)) =
     ''{'' @ toSafePropKey k @ '': '' @ jsonToType v @ '';'' @ jsonToTypeKeys kvs @ ''}''"
  by simp_all

lemma jsonToType_truthy_primitive:
  "b \<Longrightarrow> jsonToType (JBool b) = ''boolean''"
  "n \<noteq> 0 \<Longrightarrow> jsonToType (JNum n) = ''number''"
  "s \<noteq> [] \<Longrightarrow> jsonToType (JStr s) = ''string''"
  by simp_all

text \<open>
  C8 at the falsy primitives: \<^verbatim>\<open>typeof\<close> names their types, and \<^verbatim>\<open>jsonToType\<close>
  answers \<^verbatim>\<open>any\<close> for each of them, also below an object key and as the first
  element of an array.
\<close>

theorem jsonToType_falsy_primitives:
  "typeof (JNum 0) = ''number'' \<and> jsonToType (JNum 0) = ''any'' \<and>
   typeof (JStr []) = ''string'' \<and> jsonToType (JStr []) = ''any'' \<and>
   typeof (JBool False) = ''boolean'' \<and> jsonToType (JBool False) = ''any'' \<and>
   jsonToType (JArr [JNum 0]) = ''any[]'' \<and>
   jsonToType (JObj [(''count'', JNum 0)]) = ''{count: any;}''"
  by (simp add: toSafePropKey_def safeKeyPattern_def isKeyHead_def isWordChar_def char_tables)

section \<open>The registry and the declarations\<close>

declare refSchema.simps [simp del] parseRef.simps [simp del] parseSchemaItem.simps [simp del]
  parseSchemaItemAdditional.simps [simp del] parseSchemaItemObject.simps [simp del]

declare refSchemaV2.simps [simp del] parseRefV2.simps [simp del] parseSchemaItemV2.simps [simp del]
  parseSchemaItemObjectV2.simps [simp del]

lemma grows_refl [simp]: "grows st st"
  by (simp add: grows_def)

lemma grows_trans: "grows a b \<Longrightarrow> grows b c \<Longrightarrow> grows a c"
  unfolding grows_def by (auto split: if_splits)

lemma extends_refl [simp]: "extends st st"
  by (simp add: extends_def)

lemma extends_trans: "extends a b \<Longrightarrow> extends b c \<Longrightarrow> extends a c"
  unfolding extends_def by (auto intro: grows_trans)

lemma extends_emit:
  assumes "\<not> registered st T" and "extends (st\<lparr>refs := insert T (refs st)\<rparr>) st1"
  shows "extends st (st1\<lparr>interfacesTemplate := interfacesTemplate st1 @ [Comment c, Interface T b]\<rparr>)"
    and "extends st (st1\<lparr>interfacesTemplate := interfacesTemplate st1 @ [Comment c],
                        typesTemplate := typesTemplate st1 @ [TypeAlias T b]\<rparr>)"
  using assms unfolding extends_def grows_def registered_def declCount_def
  by (auto split: if_splits)

text \<open>
  Every method of the version 3 translator leaves the request items alone, only adds to
  the registry, and appends one declaration for each name it adds to the registry.
\<close>

lemma step_extends:
  "refSchema n e st sn tn = Inr st' \<Longrightarrow> extends st st'"
  "parseRef n e st r = Inr (t, st') \<Longrightarrow> extends st st'"
  "parseSchemaItem n e st s = Inr (t, st') \<Longrightarrow> extends st st'"
  "parseSchemaItems n e st xs = Inr (ts, st') \<Longrightarrow> extends st st'"
  "parseSchemaItemAdditional n e st s = Inr (t, st') \<Longrightarrow> extends st st'"
  "parseSchemaItemObject n e st s = Inr (t, st') \<Longrightarrow> extends st st'"
  "parseProps n e st kvs tmpl = Inr (t, st') \<Longrightarrow> extends st st'"
proof (induction n e st sn tn and n e st r and n e st s and n e st xs and n e st s and n e st s
    and n e st kvs tmpl
    arbitrary: st' and t st' and t st' and ts st' and t st' and t st' and t st'
    rule: refSchema_parseRef_parseSchemaItem_parseSchemaItems_parseSchemaItemAdditional_parseSchemaItemObject_parseProps.induct)
  case (1 n e st schemaName typeName)
  note unfold = refSchema.simps [of n e st schemaName typeName]
  show ?case
  proof (cases "lookupSchema e schemaName")
    case None
    with "1.prems" show ?thesis by (simp add: unfold)
  next
    case (Some schemaItem)
    show ?thesis
    proof (cases "registered st typeName")
      case True
      with Some "1.prems" show ?thesis by (simp add: unfold)
    next
      case False
      with Some "1.prems" obtain m schemaType st1 where
        n: "n = Suc m" and
        p: "parseSchemaItem m e (st\<lparr>refs := insert typeName (refs st)\<rparr>) schemaItem =
              Inr (schemaType, st1)"
        by (auto simp: unfold split: nat.splits sum.splits)
      from "1.IH" [OF Some False n p]
      have ext: "extends (st\<lparr>refs := insert typeName (refs st)\<rparr>) st1" .
      from Some False n p "1.prems" extends_emit [OF False ext]
      show ?thesis
        by (auto simp: refSchema.simps Let_def split: if_splits)
    qed
  qed
next
  case (2 n e st r)
  then show ?case
    by (auto simp: parseRef.simps Let_def split: sum.splits)
next
  case (3 n e st schemaItem)
  note unfold = parseSchemaItem.simps [of n e st schemaItem]
  show ?case
  proof (cases "isRef schemaItem")
    case True
    with "3.prems" "3.IH"(1) show ?thesis by (simp add: unfold)
  next
    case nr: False
    show ?thesis
    proof (cases "combineSchemas schemaItem")
      case (Some cs)
      with nr "3.prems" "3.IH"(5) show ?thesis
        by (auto simp: unfold Let_def split: sum.splits)
    next
      case None
      consider (int) "stype schemaItem = TypeName ''integer''"
        | (str) "stype schemaItem = TypeName ''string''"
        | (arr) "stype schemaItem = TypeName ''array''"
        | (obj) "stype schemaItem = TypeName ''object''"
        | (other) "stype schemaItem \<noteq> TypeName ''integer''" "stype schemaItem \<noteq> TypeName ''string''"
            "stype schemaItem \<noteq> TypeName ''array''" "stype schemaItem \<noteq> TypeName ''object''"
        by blast
      then show ?thesis
      proof cases
        case int
        with nr None "3.prems" show ?thesis by (simp add: unfold)
      next
        case str
        with nr None "3.prems" show ?thesis by (auto simp: unfold split: option.splits)
      next
        case arr
        with nr None "3.prems" "3.IH"(2) [OF nr None] show ?thesis
          by (auto simp: unfold split: itemsOf.splits sum.splits)
      next
        case obj
        with nr None "3.prems" "3.IH"(3) [OF nr None] "3.IH"(4) [OF nr None] show ?thesis
          by (auto simp: unfold split: sum.splits) (blast intro: extends_trans)
      next
        case other
        with nr None "3.prems" show ?thesis by (simp add: unfold)
      qed
    qed
  qed
next
  case (4 n e st)
  then show ?case by simp
next
  case (5 n e st item rest)
  then show ?case
    by (auto split: sum.splits) (blast intro: extends_trans)
next
  case (6 n e st schemaItem)
  then show ?case
    by (auto simp: parseSchemaItemAdditional.simps split: additionalOf.splits if_splits sum.splits)
next
  case (7 n e st schemaItem)
  then show ?case
    by (auto simp: parseSchemaItemObject.simps split: sum.splits)
next
  case (8 n e st template)
  then show ?case by simp
next
  case (9 n e st key propItem rest template)
  then show ?case
    by (auto split: sum.splits) (blast intro: extends_trans)
qed

text \<open>The same for the version 2 translator.\<close>

lemma step_extendsV2:
  "refSchemaV2 n e st sn tn = Inr st' \<Longrightarrow> extends st st'"
  "parseRefV2 n e st r = Inr (t, st') \<Longrightarrow> extends st st'"
  "parseSchemaItemV2 n e st s = Inr (t, st') \<Longrightarrow> extends st st'"
  "parseSchemaItemsV2 n e st xs = Inr (ts, st') \<Longrightarrow> extends st st'"
  "parseSchemaItemObjectV2 n e st s = Inr (t, st') \<Longrightarrow> extends st st'"
  "parsePropsV2 n e st kvs tmpl = Inr (t, st') \<Longrightarrow> extends st st'"
proof (induction n e st sn tn and n e st r and n e st s and n e st xs and n e st s
    and n e st kvs tmpl
    arbitrary: st' and t st' and t st' and ts st' and t st' and t st'
    rule: refSchemaV2_parseRefV2_parseSchemaItemV2_parseSchemaItemsV2_parseSchemaItemObjectV2_parsePropsV2.induct)
  case (1 n e st schemaName typeName)
  note unfold = refSchemaV2.simps [of n e st schemaName typeName]
  show ?case
  proof (cases "lookupSchema e schemaName")
    case None
    with "1.prems" show ?thesis by (simp add: unfold)
  next
    case (Some schemaItem)
    show ?thesis
    proof (cases "registered st typeName")
      case True
      with Some "1.prems" show ?thesis by (simp add: unfold)
    next
      case False
      with Some "1.prems" obtain m schemaType st1 where
        n: "n = Suc m" and
        p: "parseSchemaItemV2 m e (st\<lparr>refs := insert typeName (refs st)\<rparr>) schemaItem =
              Inr (schemaType, st1)"
        by (auto simp: unfold split: nat.splits sum.splits)
      from "1.IH" [OF Some False n p]
      have ext: "extends (st\<lparr>refs := insert typeName (refs st)\<rparr>) st1" .
      from Some False n p "1.prems" extends_emit [OF False ext]
      show ?thesis
        by (auto simp: refSchemaV2.simps Let_def split: if_splits)
    qed
  qed
next
  case (2 n e st r)
  then show ?case
    by (auto simp: parseRefV2.simps Let_def split: sum.splits)
next
  case (3 n e st schemaItem)
  note unfold = parseSchemaItemV2.simps [of n e st schemaItem]
  show ?case
  proof (cases "isRef schemaItem")
    case True
    with "3.prems" "3.IH"(1) show ?thesis by (simp add: unfold)
  next
    case nr: False
    show ?thesis
    proof (cases "combineSchemas schemaItem")
      case (Some cs)
      with nr "3.prems" "3.IH"(5) show ?thesis
        by (auto simp: unfold Let_def split: sum.splits)
    next
      case None
      consider (int) "stype schemaItem = TypeName ''integer''"
        | (str) "stype schemaItem = TypeName ''string''"
        | (binary) "stype schemaItem = TypeName ''file''"
        | (arr) "stype schemaItem = TypeName ''array''"
        | (obj) "stype schemaItem = TypeName ''object''"
        | (other) "stype schemaItem \<noteq> TypeName ''integer''" "stype schemaItem \<noteq> TypeName ''string''"
            "stype schemaItem \<noteq> TypeName ''file''"
            "stype schemaItem \<noteq> TypeName ''array''" "stype schemaItem \<noteq> TypeName ''object''"
        by blast
      then show ?thesis
      proof cases
        case int
        with nr None "3.prems" show ?thesis by (simp add: unfold)
      next
        case str
        with nr None "3.prems" show ?thesis by (auto simp: unfold split: option.splits)
      next
        case binary
        with nr None "3.prems" show ?thesis by (simp add: unfold)
      next
        case arr
        with nr None "3.prems" "3.IH"(2) [OF nr None] "3.IH"(3) [OF nr None] show ?thesis
          by (auto simp: unfold Let_def split: itemsOf.splits sum.splits)
      next
        case obj
        with nr None "3.prems" "3.IH"(4) [OF nr None] show ?thesis
          by (auto simp: unfold split: sum.splits)
      next
        case other
        with nr None "3.prems" show ?thesis by (simp add: unfold)
      qed
    qed
  qed
next
  case (4 n e st)
  then show ?case by simp
next
  case (5 n e st item rest)
  then show ?case
    by (auto split: sum.splits) (blast intro: extends_trans)
next
  case (6 n e st schemaItem)
  then show ?case
    by (auto simp: parseSchemaItemObjectV2.simps split: sum.splits)
next
  case (7 n e st template)
  then show ?case by simp
next
  case (8 n e st key propItem rest template)
  then show ?case
    by (auto split: sum.splits) (blast intro: extends_trans)
qed

section \<open>Enough fuel\<close>

lemma finite_schemaNames: "finite (schemaNames e)"
proof -
  have "schemaNames e \<subseteq>
      (case schemas (doc e) of None \<Rightarrow> {} | Some kvs \<Rightarrow> fst ` set kvs \<union> set objectPrototypeKeys)"
    by (auto simp: schemaNames_def lookupSchema_def split: option.splits if_splits
        dest: map_of_SomeD intro: rev_image_eqI)
  moreover have "finite (case schemas (doc e) of None \<Rightarrow> {}
      | Some kvs \<Rightarrow> fst ` set kvs \<union> set objectPrototypeKeys)"
    by (simp split: option.splits)
  ultimately show ?thesis by (rule finite_subset)
qed

lemma unregistered_mono: "refs st \<subseteq> refs st' \<Longrightarrow> unregistered e st' \<le> unregistered e st"
  unfolding unregistered_def
  by (rule card_mono) (auto simp: finite_schemaNames)

lemma unregistered_extends: "extends st st' \<Longrightarrow> unregistered e st' \<le> unregistered e st"
  by (simp add: extends_def grows_def unregistered_mono)

lemma unregistered_insert:
  assumes "lookupSchema e sn = Some s" and "\<not> registered st (formatSchemaName e sn)"
  shows "unregistered e (st\<lparr>refs := insert (formatSchemaName e sn) (refs st)\<rparr>) < unregistered e st"
proof -
  let ?C = "formatSchemaName e ` schemaNames e"
  have mem: "formatSchemaName e sn \<in> ?C - refs st"
    using assms by (auto simp: schemaNames_def registered_def)
  have "?C - insert (formatSchemaName e sn) (refs st) \<subset> ?C - refs st"
    using mem by auto
  then show ?thesis
    unfolding unregistered_def
    by (simp add: psubset_card_mono finite_schemaNames)
qed

text \<open>
  With a bound no smaller than the number of schema names not yet registered, no method
  of the version 3 translator runs out of fuel.
\<close>

lemma enough_fuel:
  "tn = formatSchemaName e sn \<Longrightarrow> unregistered e st \<le> n \<Longrightarrow> refSchema n e st sn tn \<noteq> Inl OutOfFuel"
  "unregistered e st \<le> n \<Longrightarrow> parseRef n e st r \<noteq> Inl OutOfFuel"
  "unregistered e st \<le> n \<Longrightarrow> parseSchemaItem n e st s \<noteq> Inl OutOfFuel"
  "unregistered e st \<le> n \<Longrightarrow> parseSchemaItems n e st xs \<noteq> Inl OutOfFuel"
  "unregistered e st \<le> n \<Longrightarrow> parseSchemaItemAdditional n e st s \<noteq> Inl OutOfFuel"
  "unregistered e st \<le> n \<Longrightarrow> parseSchemaItemObject n e st s \<noteq> Inl OutOfFuel"
  "unregistered e st \<le> n \<Longrightarrow> parseProps n e st kvs tmpl \<noteq> Inl OutOfFuel"
proof (induction n e st sn tn and n e st r and n e st s and n e st xs and n e st s and n e st s
    and n e st kvs tmpl
    rule: refSchema_parseRef_parseSchemaItem_parseSchemaItems_parseSchemaItemAdditional_parseSchemaItemObject_parseProps.induct)
  case (1 n e st schemaName typeName)
  show ?case
  proof (cases "lookupSchema e schemaName")
    case None
    then show ?thesis by (simp add: refSchema.simps)
  next
    case (Some schemaItem)
    show ?thesis
    proof (cases "registered st typeName")
      case True
      with Some show ?thesis by (simp add: refSchema.simps)
    next
      case False
      from False "1.prems"(1) have "\<not> registered st (formatSchemaName e schemaName)"
        by simp
      from unregistered_insert [OF Some this] "1.prems"
      have less: "unregistered e (st\<lparr>refs := insert typeName (refs st)\<rparr>) < n"
        by simp
      then obtain m where n: "n = Suc m" by (cases n) auto
      with less have "unregistered e (st\<lparr>refs := insert typeName (refs st)\<rparr>) \<le> m" by simp
      from "1.IH" [OF Some False n this]
      show ?thesis using Some False n
        by (auto simp: refSchema.simps Let_def split: sum.splits)
    qed
  qed
next
  case (2 n e st r)
  then show ?case
    by (auto simp: parseRef.simps Let_def split: sum.splits)
next
  case (3 n e st schemaItem)
  note unfold = parseSchemaItem.simps [of n e st schemaItem]
  show ?case
  proof (cases "isRef schemaItem")
    case True
    with "3.prems" "3.IH"(1) show ?thesis by (simp add: unfold)
  next
    case nr: False
    show ?thesis
    proof (cases "combineSchemas schemaItem")
      case (Some cs)
      with nr "3.prems" "3.IH"(5) show ?thesis
        by (auto simp: unfold Let_def split: sum.splits)
    next
      case None
      consider (int) "stype schemaItem = TypeName ''integer''"
        | (str) "stype schemaItem = TypeName ''string''"
        | (arr) "stype schemaItem = TypeName ''array''"
        | (obj) "stype schemaItem = TypeName ''object''"
        | (other) "stype schemaItem \<noteq> TypeName ''integer''" "stype schemaItem \<noteq> TypeName ''string''"
            "stype schemaItem \<noteq> TypeName ''array''" "stype schemaItem \<noteq> TypeName ''object''"
        by blast
      then show ?thesis
      proof cases
        case int
        with nr None show ?thesis by (simp add: unfold)
      next
        case str
        with nr None show ?thesis by (auto simp: unfold split: option.splits)
      next
        case arr
        with nr None "3.prems" "3.IH"(2) [OF nr None] show ?thesis
          by (auto simp: unfold split: itemsOf.splits sum.splits)
      next
        case obj
        have "parseSchemaItemAdditional n e st1 schemaItem \<noteq> Inl OutOfFuel"
          if "parseSchemaItemObject n e st schemaItem = Inr (a, st1)" for a st1
        proof -
          from step_extends(6) [OF that] have "unregistered e st1 \<le> unregistered e st"
            by (rule unregistered_extends)
          with "3.prems" have "unregistered e st1 \<le> n" by simp
          with "3.IH"(4) [OF nr None _ _ _ obj that] obj show ?thesis by simp
        qed
        with obj nr None "3.prems" "3.IH"(3) [OF nr None] show ?thesis
          by (auto simp: unfold split: sum.splits)
      next
        case other
        with nr None show ?thesis by (simp add: unfold)
      qed
    qed
  qed
next
  case (4 n e st)
  then show ?case by simp
next
  case (5 n e st item rest)
  have "parseSchemaItems n e st1 rest \<noteq> Inl OutOfFuel"
    if "parseSchemaItem n e st item = Inr (t, st1)" for t st1
  proof -
    from step_extends(3) [OF that] have "unregistered e st1 \<le> unregistered e st"
      by (rule unregistered_extends)
    with "5.prems" have "unregistered e st1 \<le> n" by simp
    with "5.IH"(2) [OF that] show ?thesis by simp
  qed
  with "5.IH"(1) "5.prems" show ?case
    by (auto split: sum.splits)
next
  case (6 n e st schemaItem)
  then show ?case
    by (auto simp: parseSchemaItemAdditional.simps split: additionalOf.splits if_splits sum.splits)
next
  case (7 n e st schemaItem)
  then show ?case
    by (auto simp: parseSchemaItemObject.simps split: sum.splits)
next
  case (8 n e st template)
  then show ?case by simp
next
  case (9 n e st key propItem rest template)
  have "parseProps n e st1 rest (propLine e key propItem t template) \<noteq> Inl OutOfFuel"
    if "parseSchemaItem n e st propItem = Inr (t, st1)" for t st1
  proof -
    from step_extends(3) [OF that] have "unregistered e st1 \<le> unregistered e st"
      by (rule unregistered_extends)
    with "9.prems" have "unregistered e st1 \<le> n" by simp
    with "9.IH"(2) [OF that] show ?thesis by simp
  qed
  with "9.IH"(1) "9.prems" show ?case
    by (auto split: sum.splits)
qed

lemma parseSchemaItemAdditionalV2_fuel: "parseSchemaItemAdditionalV2 s \<noteq> Inl OutOfFuel"
  by (simp add: parseSchemaItemAdditionalV2_def split: additionalOf.splits option.splits)

text \<open>The same for the version 2 translator.\<close>

lemma enough_fuelV2:
  "tn = formatSchemaName e sn \<Longrightarrow> unregistered e st \<le> n \<Longrightarrow> refSchemaV2 n e st sn tn \<noteq> Inl OutOfFuel"
  "unregistered e st \<le> n \<Longrightarrow> parseRefV2 n e st r \<noteq> Inl OutOfFuel"
  "unregistered e st \<le> n \<Longrightarrow> parseSchemaItemV2 n e st s \<noteq> Inl OutOfFuel"
  "unregistered e st \<le> n \<Longrightarrow> parseSchemaItemsV2 n e st xs \<noteq> Inl OutOfFuel"
  "unregistered e st \<le> n \<Longrightarrow> parseSchemaItemObjectV2 n e st s \<noteq> Inl OutOfFuel"
  "unregistered e st \<le> n \<Longrightarrow> parsePropsV2 n e st kvs tmpl \<noteq> Inl OutOfFuel"
proof (induction n e st sn tn and n e st r and n e st s and n e st xs and n e st s
    and n e st kvs tmpl
    rule: refSchemaV2_parseRefV2_parseSchemaItemV2_parseSchemaItemsV2_parseSchemaItemObjectV2_parsePropsV2.induct)
  case (1 n e st schemaName typeName)
  show ?case
  proof (cases "lookupSchema e schemaName")
    case None
    then show ?thesis by (simp add: refSchemaV2.simps)
  next
    case (Some schemaItem)
    show ?thesis
    proof (cases "registered st typeName")
      case True
      with Some show ?thesis by (simp add: refSchemaV2.simps)
    next
      case False
      from False "1.prems"(1) have "\<not> registered st (formatSchemaName e schemaName)"
        by simp
      from unregistered_insert [OF Some this] "1.prems"
      have less: "unregistered e (st\<lparr>refs := insert typeName (refs st)\<rparr>) < n"
        by simp
      then obtain m where n: "n = Suc m" by (cases n) auto
      with less have "unregistered e (st\<lparr>refs := insert typeName (refs st)\<rparr>) \<le> m" by simp
      from "1.IH" [OF Some False n this]
      show ?thesis using Some False n
        by (auto simp: refSchemaV2.simps Let_def split: sum.splits)
    qed
  qed
next
  case (2 n e st r)
  then show ?case
    by (auto simp: parseRefV2.simps Let_def split: sum.splits)
next
  case (3 n e st schemaItem)
  note unfold = parseSchemaItemV2.simps [of n e st schemaItem]
  show ?case
  proof (cases "isRef schemaItem")
    case True
    with "3.prems" "3.IH"(1) show ?thesis by (simp add: unfold)
  next
    case nr: False
    show ?thesis
    proof (cases "combineSchemas schemaItem")
      case (Some cs)
      with nr "3.prems" "3.IH"(5) show ?thesis
        by (auto simp: unfold Let_def split: sum.splits)
    next
      case None
      consider (int) "stype schemaItem = TypeName ''integer''"
        | (str) "stype schemaItem = TypeName ''string''"
        | (binary) "stype schemaItem = TypeName ''file''"
        | (arr) "stype schemaItem = TypeName ''array''"
        | (obj) "stype schemaItem = TypeName ''object''"
        | (other) "stype schemaItem \<noteq> TypeName ''integer''" "stype schemaItem \<noteq> TypeName ''string''"
            "stype schemaItem \<noteq> TypeName ''file''"
            "stype schemaItem \<noteq> TypeName ''array''" "stype schemaItem \<noteq> TypeName ''object''"
        by blast
      then show ?thesis
      proof cases
        case int
        with nr None show ?thesis by (simp add: unfold)
      next
        case str
        with nr None show ?thesis by (auto simp: unfold split: option.splits)
      next
        case binary
        with nr None show ?thesis by (simp add: unfold)
      next
        case arr
        with nr None "3.prems" "3.IH"(2) [OF nr None] "3.IH"(3) [OF nr None] show ?thesis
          by (auto simp: unfold Let_def split: itemsOf.splits sum.splits)
      next
        case obj
        with nr None "3.prems" "3.IH"(4) [OF nr None] parseSchemaItemAdditionalV2_fuel [of schemaItem]
        show ?thesis
          by (auto simp: unfold split: sum.splits)
      next
        case other
        with nr None show ?thesis by (simp add: unfold)
      qed
    qed
  qed
next
  case (4 n e st)
  then show ?case by simp
next
  case (5 n e st item rest)
  have "parseSchemaItemsV2 n e st1 rest \<noteq> Inl OutOfFuel"
    if "parseSchemaItemV2 n e st item = Inr (t, st1)" for t st1
  proof -
    from step_extendsV2(3) [OF that] have "unregistered e st1 \<le> unregistered e st"
      by (rule unregistered_extends)
    with "5.prems" have "unregistered e st1 \<le> n" by simp
    with "5.IH"(2) [OF that] show ?thesis by simp
  qed
  with "5.IH"(1) "5.prems" show ?case
    by (auto split: sum.splits)
next
  case (6 n e st schemaItem)
  then show ?case
    by (auto simp: parseSchemaItemObjectV2.simps split: sum.splits)
next
  case (7 n e st template)
  then show ?case by simp
next
  case (8 n e st key propItem rest template)
  have "parsePropsV2 n e st1 rest (propLine e key propItem t template) \<noteq> Inl OutOfFuel"
    if "parseSchemaItemV2 n e st propItem = Inr (t, st1)" for t st1
  proof -
    from step_extendsV2(3) [OF that] have "unregistered e st1 \<le> unregistered e st"
      by (rule unregistered_extends)
    with "8.prems" have "unregistered e st1 \<le> n" by simp
    with "8.IH"(2) [OF that] show ?thesis by simp
  qed
  with "8.IH"(1) "8.prems" show ?case
    by (auto split: sum.splits)
qed

section \<open>Parameters, bodies, responses and paths keep the invariants\<close>

lemma extends_grows: "extends st st' \<Longrightarrow> grows st st'"
  by (simp add: extends_def)

lemma unregistered_grows: "grows st st' \<Longrightarrow> unregistered e st' \<le> unregistered e st"
  by (simp add: grows_def unregistered_mono)

lemma parseParams_extends:
  "parseParams n e st ps acc console = Inr (acc', console', st') \<Longrightarrow> extends st st'"
proof (induction ps arbitrary: st acc console)
  case Nil
  then show ?case by simp
next
  case (Cons p ps)
  show ?case
  proof (cases "isRef (p_node p)")
    case True
    with Cons show ?thesis by simp
  next
    case False
    with Cons.prems obtain t st1 acc1 where
      p: "parseSchemaItem n e st (case p_schema p of Some s \<Rightarrow> s | None \<Rightarrow> emptySchema) = Inr (t, st1)"
      and r: "parseParams n e st1 ps acc1 console = Inr (acc', console', st')"
      by (auto simp: Let_def split: sum.splits)
    from step_extends(3) [OF p] Cons.IH [OF r] show ?thesis
      by (rule extends_trans)
  qed
qed

lemma parseParams_fuel:
  "unregistered e st \<le> n \<Longrightarrow> parseParams n e st ps acc console \<noteq> Inl OutOfFuel"
proof (induction ps arbitrary: st acc console)
  case Nil
  then show ?case by simp
next
  case (Cons p ps)
  have "parseParams n e st1 ps acc1 console \<noteq> Inl OutOfFuel"
    if "parseSchemaItem n e st (case p_schema p of Some s \<Rightarrow> s | None \<Rightarrow> emptySchema) = Inr (t, st1)"
    for t st1 acc1
  proof -
    from step_extends(3) [OF that] have "unregistered e st1 \<le> unregistered e st"
      by (rule unregistered_extends)
    with Cons.prems have "unregistered e st1 \<le> n" by simp
    then show ?thesis by (rule Cons.IH)
  qed
  with Cons.IH [OF Cons.prems] enough_fuel(3) [OF Cons.prems] show ?case
    by (auto simp: Let_def split: sum.splits)
qed

lemma parseParamsSchema_extends:
  "parseParamsSchema n e st operationItem = Inr (r, console, st') \<Longrightarrow> extends st st'"
  by (auto simp: parseParamsSchema_def split: sum.splits dest: parseParams_extends)

lemma parseParamsSchema_fuel:
  "unregistered e st \<le> n \<Longrightarrow> parseParamsSchema n e st operationItem \<noteq> Inl OutOfFuel"
  using parseParams_fuel [of e st n]
  by (auto simp: parseParamsSchema_def split: sum.splits)

lemma parseRequestBodySchema_extends:
  "parseRequestBodySchema n e st operationItem = Inr (t, st') \<Longrightarrow> extends st st'"
  by (auto simp: parseRequestBodySchema_def split: option.splits if_splits
      dest: step_extends(2) step_extends(3))

lemma parseRequestBodySchema_fuel:
  "unregistered e st \<le> n \<Longrightarrow> parseRequestBodySchema n e st operationItem \<noteq> Inl OutOfFuel"
  by (simp add: parseRequestBodySchema_def enough_fuel split: option.splits)

lemma parseResponseSchema_extends:
  "parseResponseSchema n e st operationItem = Inr (t, st') \<Longrightarrow> extends st st'"
  by (auto simp: parseResponseSchema_def split: option.splits if_splits
      dest: step_extends(2) step_extends(3))

lemma parseResponseSchema_fuel:
  "unregistered e st \<le> n \<Longrightarrow> parseResponseSchema n e st operationItem \<noteq> Inl OutOfFuel"
  by (simp add: parseResponseSchema_def enough_fuel split: option.splits)

lemma pushItem_grows: "pushItem st tag item = Inr st' \<Longrightarrow> grows st st'"
  by (auto simp: pushItem_def grows_def declCount_def split: if_splits)

lemma pushItem_fuel: "pushItem st tag item \<noteq> Inl OutOfFuel"
  by (simp add: pushItem_def)

lemma parseOperation_grows:
  assumes "parseOperation n e st u k operationItem console = Inr (console', st')"
  shows "grows st st'"
proof (cases "inHttpMethods (toUpperCase k) \<and>
    validate (newTagValidator (cfg_include (config e)) (cfg_exclude (config e))) (firstTag operationItem)")
  case False
  with assms show ?thesis
    by (auto simp: parseOperation_def Let_def split: if_splits)
next
  case True
  with assms obtain r logged st1 b st2 t st3 item where
    a: "parseParamsSchema n e st operationItem = Inr (r, logged, st1)" and
    b: "parseRequestBodySchema n e st1 operationItem = Inr (b, st2)" and
    c: "parseResponseSchema n e st2 operationItem = Inr (t, st3)" and
    d: "pushItem st3 (firstTag operationItem) item = Inr st'"
    by (auto simp: parseOperation_def Let_def split: if_splits sum.splits)
  from parseParamsSchema_extends [OF a] parseRequestBodySchema_extends [OF b]
    parseResponseSchema_extends [OF c] pushItem_grows [OF d]
  show ?thesis
    by (blast intro: grows_trans extends_grows)
qed

lemma operationName_fuel: "operationName e tag k u operationItem \<noteq> Inl OutOfFuel"
  by (simp add: operationName_def replaceDuplicatePrefix_def split: option.splits)

lemma parseOperation_fuel:
  assumes "unregistered e st \<le> n"
  shows "parseOperation n e st u k operationItem console \<noteq> Inl OutOfFuel"
proof (cases "parseParamsSchema n e st operationItem")
  case (Inl err)
  with parseParamsSchema_fuel [OF assms, of operationItem]
    operationName_fuel [of e "firstTag operationItem" k u operationItem] show ?thesis
    by (auto simp: parseOperation_def Let_def split: sum.splits)
next
  case (Inr x)
  then obtain r logged st1 where a: "parseParamsSchema n e st operationItem = Inr (r, logged, st1)"
    by (cases x) auto
  from unregistered_extends [OF parseParamsSchema_extends [OF a], of e] assms
  have f1: "unregistered e st1 \<le> n" by simp
  show ?thesis
  proof (cases "parseRequestBodySchema n e st1 operationItem")
    case (Inl err)
    with a parseRequestBodySchema_fuel [OF f1, of operationItem]
      operationName_fuel [of e "firstTag operationItem" k u operationItem] show ?thesis
      by (auto simp: parseOperation_def Let_def split: sum.splits)
  next
    case (Inr y)
    then obtain b st2 where b: "parseRequestBodySchema n e st1 operationItem = Inr (b, st2)"
      by (cases y) auto
    from unregistered_extends [OF parseRequestBodySchema_extends [OF b], of e] f1
    have f2: "unregistered e st2 \<le> n" by simp
    from a b parseResponseSchema_fuel [OF f2, of operationItem] pushItem_fuel
      operationName_fuel [of e "firstTag operationItem" k u operationItem] show ?thesis
      by (auto simp: parseOperation_def Let_def split: sum.splits)
  qed
qed

lemma parsePathItem_grows:
  "parsePathItem n e st u pathItem console = Inr (console', st') \<Longrightarrow> grows st st'"
proof (induction pathItem arbitrary: st console)
  case Nil
  then show ?case by simp
next
  case (Cons kv pathItem)
  obtain k operationItem where kv: "kv = (k, operationItem)" by (cases kv)
  with Cons.prems obtain c1 st1 where
    a: "parseOperation n e st u k operationItem console = Inr (c1, st1)" and
    b: "parsePathItem n e st1 u pathItem c1 = Inr (console', st')"
    by (auto split: sum.splits)
  from parseOperation_grows [OF a] Cons.IH [OF b] show ?case by (rule grows_trans)
qed

lemma parsePathItem_fuel:
  "unregistered e st \<le> n \<Longrightarrow> parsePathItem n e st u pathItem console \<noteq> Inl OutOfFuel"
proof (induction pathItem arbitrary: st console)
  case Nil
  then show ?case by simp
next
  case (Cons kv pathItem)
  obtain k operationItem where kv: "kv = (k, operationItem)" by (cases kv)
  have "parsePathItem n e st1 u pathItem c1 \<noteq> Inl OutOfFuel"
    if "parseOperation n e st u k operationItem console = Inr (c1, st1)" for c1 st1
    using unregistered_grows [OF parseOperation_grows [OF that], of e] Cons.prems
    by (intro Cons.IH) simp
  with parseOperation_fuel [OF Cons.prems, of u k operationItem console] kv show ?case
    by (auto split: sum.splits)
qed


lemma parsePathsFrom_fuel:
  "unregistered e st \<le> n \<Longrightarrow> parsePathsFrom n e st ps console \<noteq> Inl OutOfFuel"
proof (induction ps arbitrary: st console)
  case Nil
  then show ?case by simp
next
  case (Cons up ps)
  obtain u pathItem where up: "up = (u, pathItem)" by (cases up)
  have "parsePathsFrom n e st1 ps c1 \<noteq> Inl OutOfFuel"
    if "parsePathItem n e st u pathItem console = Inr (c1, st1)" for c1 st1
    using unregistered_grows [OF parsePathItem_grows [OF that], of e] Cons.prems
    by (intro Cons.IH) simp
  with parsePathItem_fuel [OF Cons.prems, of u pathItem console] up show ?case
    by (auto split: sum.splits)
qed

text \<open>The same for the version 2 translator.\<close>

lemma parseParamsV2_extends:
  "parseParamsV2 n e st ps acc console = Inr (acc', console', st') \<Longrightarrow> extends st st'"
proof (induction ps arbitrary: st acc console)
  case Nil
  then show ?case by simp
next
  case (Cons p ps)
  show ?case
  proof (cases "isRef (p_node p)")
    case True
    with Cons show ?thesis by simp
  next
    case False
    with Cons.prems obtain t st1 where
      p: "parseSchemaItemV2 n e st (case p_schema p of Some s \<Rightarrow> s | None \<Rightarrow> p_node p) = Inr (t, st1)"
      by (auto simp: Let_def split: sum.splits)
    note e1 = step_extendsV2(3) [OF p]
    show ?thesis
    proof (cases "p_in p \<noteq> ''path'' \<and> p_in p \<noteq> ''query'' \<and> p_in p \<noteq> ''formData'' \<and>
        p_in p = ''body'' \<and> p_name p = ''root''")
      case True
      with False p Cons.prems obtain t2 st2 acc1 where
        q: "(case p_schema p of None \<Rightarrow> Inr ([], st1) | Some s \<Rightarrow> parseSchemaItemV2 n e st1 s) = Inr (t2, st2)"
        and r: "parseParamsV2 n e st2 ps acc1 console = Inr (acc', console', st')"
        by (auto simp: Let_def split: sum.splits)
      from q have "extends st1 st2"
        by (auto split: option.splits dest: step_extendsV2(3))
      with e1 Cons.IH [OF r] show ?thesis
        by (blast intro: extends_trans)
    next
      case other: False
      with False p Cons.prems obtain acc1 where
        r: "parseParamsV2 n e st1 ps acc1 console = Inr (acc', console', st')"
        by (auto simp: Let_def split: if_splits)
      from e1 Cons.IH [OF r] show ?thesis by (rule extends_trans)
    qed
  qed
qed

lemma parseParamsV2_fuel:
  "unregistered e st \<le> n \<Longrightarrow> parseParamsV2 n e st ps acc console \<noteq> Inl OutOfFuel"
proof (induction ps arbitrary: st acc console)
  case Nil
  then show ?case by simp
next
  case (Cons p ps)
  show ?case
  proof (cases "isRef (p_node p)")
    case True
    with Cons show ?thesis by simp
  next
    case False
    show ?thesis
    proof (cases "parseSchemaItemV2 n e st (case p_schema p of Some s \<Rightarrow> s | None \<Rightarrow> p_node p)")
      case (Inl err)
      with False enough_fuelV2(3) [OF Cons.prems] show ?thesis
        by (auto simp: Let_def)
    next
      case (Inr x)
      then obtain t st1 where
        p: "parseSchemaItemV2 n e st (case p_schema p of Some s \<Rightarrow> s | None \<Rightarrow> p_node p) = Inr (t, st1)"
        by (cases x) auto
      from unregistered_extends [OF step_extendsV2(3) [OF p], of e] Cons.prems
      have f1: "unregistered e st1 \<le> n" by simp
      have second: "parseParamsV2 n e st2 ps acc1 console \<noteq> Inl OutOfFuel"
        if "(case p_schema p of None \<Rightarrow> Inr ([], st1) | Some s \<Rightarrow> parseSchemaItemV2 n e st1 s) = Inr (t2, st2)"
        for t2 st2 acc1
      proof -
        from that have "extends st1 st2"
          by (auto split: option.splits dest: step_extendsV2(3))
        from unregistered_extends [OF this, of e] f1 have "unregistered e st2 \<le> n" by simp
        then show ?thesis by (rule Cons.IH)
      qed
      have first: "(case p_schema p of None \<Rightarrow> Inr ([], st1) | Some s \<Rightarrow> parseSchemaItemV2 n e st1 s)
          \<noteq> Inl OutOfFuel"
        using enough_fuelV2(3) [OF f1] by (simp split: option.splits)
      from False p Cons.IH [OF f1] first second show ?thesis
        by (auto simp: Let_def split: sum.splits)
    qed
  qed
qed

lemma parseParamsSchemaV2_extends:
  "parseParamsSchemaV2 n e st operationItem = Inr (r, console, st') \<Longrightarrow> extends st st'"
  by (auto simp: parseParamsSchemaV2_def split: sum.splits dest: parseParamsV2_extends)

lemma parseParamsSchemaV2_fuel:
  "unregistered e st \<le> n \<Longrightarrow> parseParamsSchemaV2 n e st operationItem \<noteq> Inl OutOfFuel"
  using parseParamsV2_fuel [of e st n]
  by (auto simp: parseParamsSchemaV2_def split: sum.splits)

lemma parseResponseSchemaV2_extends:
  "parseResponseSchemaV2 n e st operationItem = Inr (t, st') \<Longrightarrow> extends st st'"
  by (auto simp: parseResponseSchemaV2_def split: option.splits if_splits
      dest: step_extendsV2(2) step_extendsV2(3))

lemma parseResponseSchemaV2_fuel:
  "unregistered e st \<le> n \<Longrightarrow> parseResponseSchemaV2 n e st operationItem \<noteq> Inl OutOfFuel"
  by (simp add: parseResponseSchemaV2_def enough_fuelV2 split: option.splits)

lemma parseOperationV2_grows:
  assumes "parseOperationV2 n e st u k operationItem console = Inr (console', st')"
  shows "grows st st'"
proof -
  define tag where "tag = (case getTag (config e) of
      Some g \<Rightarrow> g (case urlToNameReplacer (config e) of Some f \<Rightarrow> f u | None \<Rightarrow> u) k operationItem
    | None \<Rightarrow> firstTag operationItem)"
  show ?thesis
  proof (cases "inHttpMethods (toUpperCase k) \<and>
      validate (newTagValidator (cfg_include (config e)) (cfg_exclude (config e))) tag")
    case False
    with assms show ?thesis
      by (auto simp: parseOperationV2_def Let_def tag_def split: if_splits)
  next
    case True
    with assms obtain r logged st1 t st2 item where
      a: "parseParamsSchemaV2 n e st operationItem = Inr (r, logged, st1)" and
      c: "parseResponseSchemaV2 n e st1 operationItem = Inr (t, st2)" and
      d: "pushItem st2 tag item = Inr st'"
      by (auto simp: parseOperationV2_def Let_def tag_def split: if_splits sum.splits)
    from parseParamsSchemaV2_extends [OF a] parseResponseSchemaV2_extends [OF c] pushItem_grows [OF d]
    show ?thesis
      by (blast intro: grows_trans extends_grows)
  qed
qed

lemma parseOperationV2_fuel:
  assumes "unregistered e st \<le> n"
  shows "parseOperationV2 n e st u k operationItem console \<noteq> Inl OutOfFuel"
proof (cases "parseParamsSchemaV2 n e st operationItem")
  case (Inl err)
  with parseParamsSchemaV2_fuel [OF assms, of operationItem] show ?thesis
    by (auto simp: parseOperationV2_def Let_def)
next
  case (Inr x)
  then obtain r logged st1 where a: "parseParamsSchemaV2 n e st operationItem = Inr (r, logged, st1)"
    by (cases x) auto
  from unregistered_extends [OF parseParamsSchemaV2_extends [OF a], of e] assms
  have f1: "unregistered e st1 \<le> n" by simp
  from a parseResponseSchemaV2_fuel [OF f1, of operationItem] pushItem_fuel show ?thesis
    by (auto simp: parseOperationV2_def Let_def split: sum.splits)
qed

lemma parsePathItemV2_grows:
  "parsePathItemV2 n e st u pathItem console = Inr (console', st') \<Longrightarrow> grows st st'"
proof (induction pathItem arbitrary: st console)
  case Nil
  then show ?case by simp
next
  case (Cons kv pathItem)
  obtain k operationItem where kv: "kv = (k, operationItem)" by (cases kv)
  with Cons.prems obtain c1 st1 where
    a: "parseOperationV2 n e st u k operationItem console = Inr (c1, st1)" and
    b: "parsePathItemV2 n e st1 u pathItem c1 = Inr (console', st')"
    by (auto split: sum.splits)
  from parseOperationV2_grows [OF a] Cons.IH [OF b] show ?case by (rule grows_trans)
qed

lemma parsePathItemV2_fuel:
  "unregistered e st \<le> n \<Longrightarrow> parsePathItemV2 n e st u pathItem console \<noteq> Inl OutOfFuel"
proof (induction pathItem arbitrary: st console)
  case Nil
  then show ?case by simp
next
  case (Cons kv pathItem)
  obtain k operationItem where kv: "kv = (k, operationItem)" by (cases kv)
  have "parsePathItemV2 n e st1 u pathItem c1 \<noteq> Inl OutOfFuel"
    if "parseOperationV2 n e st u k operationItem console = Inr (c1, st1)" for c1 st1
    using unregistered_grows [OF parseOperationV2_grows [OF that], of e] Cons.prems
    by (intro Cons.IH) simp
  with parseOperationV2_fuel [OF Cons.prems, of u k operationItem console] kv show ?case
    by (auto split: sum.splits)
qed


lemma parsePathsFromV2_fuel:
  "unregistered e st \<le> n \<Longrightarrow> parsePathsFromV2 n e st ps console \<noteq> Inl OutOfFuel"
proof (induction ps arbitrary: st console)
  case Nil
  then show ?case by simp
next
  case (Cons up ps)
  obtain u pathItem where up: "up = (u, pathItem)" by (cases up)
  have "parsePathsFromV2 n e st1 ps c1 \<noteq> Inl OutOfFuel"
    if "parsePathItemV2 n e st u pathItem console = Inr (c1, st1)" for c1 st1
    using unregistered_grows [OF parsePathItemV2_grows [OF that], of e] Cons.prems
    by (intro Cons.IH) simp
  with parsePathItemV2_fuel [OF Cons.prems, of u pathItem console] up show ?case
    by (auto split: sum.splits)
qed

section \<open>References: one name, one declaration\<close>

lemma unregistered_le_fuelBound: "unregistered e st \<le> fuelBound e"
proof -
  let ?K = "(case schemas (doc e) of None \<Rightarrow> {} | Some kvs \<Rightarrow> fst ` set kvs \<union> set objectPrototypeKeys)"
  have sub: "schemaNames e \<subseteq> ?K"
    by (auto simp: schemaNames_def lookupSchema_def split: option.splits if_splits
        dest: map_of_SomeD intro: rev_image_eqI)
  have fin: "finite ?K" by (simp split: option.splits)
  have "unregistered e st \<le> card (formatSchemaName e ` schemaNames e)"
    unfolding unregistered_def by (rule card_mono) (auto simp: finite_schemaNames)
  also have "\<dots> \<le> card (schemaNames e)"
    by (rule card_image_le) (rule finite_schemaNames)
  also have "\<dots> \<le> card ?K"
    by (rule card_mono [OF fin sub])
  also have "\<dots> \<le> fuelBound e"
  proof (cases "schemas (doc e)")
    case None
    then show ?thesis by (simp add: fuelBound_def)
  next
    case (Some kvs)
    have "card (fst ` set kvs \<union> set objectPrototypeKeys) \<le>
        card (fst ` set kvs) + card (set objectPrototypeKeys)"
      by (rule card_Un_le)
    also have "\<dots> \<le> length kvs + length objectPrototypeKeys"
      by (intro add_mono card_length order_trans [OF card_image_le]) auto
    finally show ?thesis using Some by (simp add: fuelBound_def)
  qed
  finally show ?thesis .
qed














lemma parsePaths_fuel: "fuelBound e \<le> n \<Longrightarrow> parsePaths n e st \<noteq> Inl OutOfFuel"
  unfolding parsePaths_def
  by (rule parsePathsFrom_fuel) (rule order_trans [OF unregistered_le_fuelBound])

lemma parsePathsV2_fuel: "fuelBound e \<le> n \<Longrightarrow> parsePathsV2 n e st \<noteq> Inl OutOfFuel"
  unfolding parsePathsV2_def
  by (rule parsePathsFromV2_fuel) (rule order_trans [OF unregistered_le_fuelBound])

section \<open>The name of a reference\<close>















section \<open>Parameters given as references\<close>

lemma parseParams_skips_refs:
  "parseParams n e st ps acc console =
     (case parseParams n e st (filter (\<lambda>p. \<not> isRefParam p) ps) acc [] of
        Inl err \<Rightarrow> Inl err
      | Inr (r, c, st') \<Rightarrow> Inr (r, console @ filter isRefParam ps, st'))"
proof (induction ps arbitrary: st acc console)
  case Nil
  then show ?case by simp
next
  case (Cons p ps)
  show ?case
  proof (cases "isRefParam p")
    case True
    then show ?thesis
      by (simp add: isRefParam_def [symmetric] Cons.IH [of st acc "console @ [p]"] split: sum.splits)
  next
    case False
    then show ?thesis
      by (simp add: isRefParam_def [symmetric] Let_def Cons.IH [of _ _ console] split: sum.splits)
  qed
qed

lemma parseParamsV2_skips_refs:
  "parseParamsV2 n e st ps acc console =
     (case parseParamsV2 n e st (filter (\<lambda>p. \<not> isRefParam p) ps) acc [] of
        Inl err \<Rightarrow> Inl err
      | Inr (r, c, st') \<Rightarrow> Inr (r, console @ filter isRefParam ps, st'))"
proof (induction ps arbitrary: st acc console)
  case Nil
  then show ?case by simp
next
  case (Cons p ps)
  note IH = Cons.IH [of _ _ console]
  show ?case
  proof (cases "isRefParam p")
    case True
    then show ?thesis
      by (simp add: isRefParam_def [symmetric] Cons.IH [of st acc "console @ [p]"] split: sum.splits)
  next
    case notRef: False
    then have nr: "\<not> isRef (p_node p)" by (simp add: isRefParam_def)
    from notRef have flt: "filter isRefParam (p # ps) = filter isRefParam ps" by simp
    show ?thesis
    proof (cases "parseSchemaItemV2 n e st (case p_schema p of Some s \<Rightarrow> s | None \<Rightarrow> p_node p)")
      case (Inl err)
      with notRef nr show ?thesis by simp
    next
      case (Inr x)
      obtain t st1 where x: "x = (t, st1)" by (cases x)
      show ?thesis
      proof (cases "p_in p = ''body'' \<and> p_name p = ''root''")
        case root: True
        show ?thesis
        proof (cases "case p_schema p of None \<Rightarrow> Inr ([], st1) | Some s \<Rightarrow> parseSchemaItemV2 n e st1 s")
          case (Inl err)
          with notRef nr Inr x root show ?thesis by simp
        next
          case second: (Inr y)
          obtain t2 st2 where y: "y = (t2, st2)" by (cases y)
          from notRef nr Inr x root second y show ?thesis
            unfolding flt by (simp add: Let_def IH)
        qed
      next
        case False
        then consider (elsewhere) "p_in p \<noteq> ''body''"
          | (named) "p_in p = ''body''" "p_name p \<noteq> ''root''"
          by blast
        then show ?thesis
        proof cases
          case elsewhere
          with notRef nr Inr x show ?thesis
            unfolding flt by (simp add: Let_def IH)
        next
          case named
          with notRef nr Inr x show ?thesis
            unfolding flt by (simp add: Let_def IH)
        qed
      qed
    qed
  qed
qed

text \<open>
  C9. In both translators \<^verbatim>\<open>parseParamsSchema\<close> gives, for any operation, what it
  gives for the operation without the parameters that are references: the same path,
  query and body buffers and the same state, or the same error when one of the other
  parameters raises one. The referenced parameters contribute no line and no error, the
  parameters after them are processed, and the console receives exactly the referenced
  parameters, in their order.
\<close>

theorem referenced_parameters_skipped:
  "parseParamsSchema n e st operationItem =
     (case parseParamsSchema n e st (withoutRefParams operationItem) of
        Inl err \<Rightarrow> Inl err
      | Inr (r, c, st') \<Rightarrow> Inr (r, filter isRefParam (parameters operationItem), st')) \<and>
   parseParamsSchemaV2 n e st operationItem =
     (case parseParamsSchemaV2 n e st (withoutRefParams operationItem) of
        Inl err \<Rightarrow> Inl err
      | Inr (r, c, st') \<Rightarrow> Inr (r, filter isRefParam (parameters operationItem), st'))"
proof
  show "parseParamsSchema n e st operationItem =
     (case parseParamsSchema n e st (withoutRefParams operationItem) of
        Inl err \<Rightarrow> Inl err
      | Inr (r, c, st') \<Rightarrow> Inr (r, filter isRefParam (parameters operationItem), st'))"
    unfolding parseParamsSchema_def withoutRefParams_def
    by (subst parseParams_skips_refs) (simp split: sum.splits)
  show "parseParamsSchemaV2 n e st operationItem =
     (case parseParamsSchemaV2 n e st (withoutRefParams operationItem) of
        Inl err \<Rightarrow> Inl err
      | Inr (r, c, st') \<Rightarrow> Inr (r, filter isRefParam (parameters operationItem), st'))"
    unfolding parseParamsSchemaV2_def withoutRefParams_def
    by (subst parseParamsV2_skips_refs) (simp split: sum.splits)
qed

text \<open>
  The theorem on an operation whose first parameter is a reference and whose second is
  the path parameter \<^verbatim>\<open>id\<close>: the path type has the line of \<^verbatim>\<open>id\<close> only.
\<close>

theorem referenced_parameters_skipped_witness:
  "parseParamsSchema 0 userEnv newState (operationOf [] [refParam, idParam]) =
     Inr (\<lparr>path = ''{\<newline>  id: number\<newline>}'', query = []\<rparr>, [refParam], newState) \<and>
   parseParamsSchemaV2 0 userEnv newState (operationOf [] [refParam, idParam]) =
     Inr (\<lparr>path = ''{\<newline>  id: number\<newline>}'', query = [], body = [], isFormDataBody = False\<rparr>,
          [refParam], newState)"
proof -
  have without: "withoutRefParams (operationOf [] [refParam, idParam]) = operationOf [] [idParam]"
    by code_simp
  have run: "parseParamsSchema 0 userEnv newState (operationOf [] [idParam]) =
      Inr (\<lparr>path = ''{\<newline>  id: number\<newline>}'', query = []\<rparr>, [], newState)"
    "parseParamsSchemaV2 0 userEnv newState (operationOf [] [idParam]) =
      Inr (\<lparr>path = ''{\<newline>  id: number\<newline>}'', query = [], body = [], isFormDataBody = False\<rparr>,
           [], newState)"
    by code_simp+
  have logged: "filter isRefParam (parameters (operationOf [] [refParam, idParam])) = [refParam]"
    by code_simp
  from referenced_parameters_skipped [of 0 userEnv newState "operationOf [] [refParam, idParam]"]
  show ?thesis
    by (simp add: without run logged)
qed

section \<open>Path-item keys that are not a method\<close>

lemma upperUnits_not_lower: "x \<in> set (upperUnits u) \<Longrightarrow> \<not> (0x61 \<le> x \<and> x \<le> 0x7A)"
  by (auto simp: upperUnits_def split: if_splits)

lemma inherited_key_has_lower:
  "\<forall>key \<in> set (map units objectPrototypeKeys). \<exists>x \<in> set key. 0x61 \<le> x \<and> x \<le> 0x7A"
  by code_simp

lemma toUpperCase_not_inherited: "toUpperCase k \<notin> set (map units objectPrototypeKeys)"
proof
  assume "toUpperCase k \<in> set (map units objectPrototypeKeys)"
  with inherited_key_has_lower obtain x where "x \<in> set (toUpperCase k)" "0x61 \<le> x \<and> x \<le> 0x7A"
    by blast
  then show False
    by (auto simp: toUpperCase_def dest: upperUnits_not_lower)
qed

lemma inHttpMethods_iff: "inHttpMethods (toUpperCase k) = isMethodKey k"
  using toUpperCase_not_inherited [of k] by (auto simp: inHttpMethods_def isMethodKey_def)

lemma parseOperation_other_key:
  "\<not> isMethodKey k \<Longrightarrow> parseOperation n e st u k operationItem console = Inr (console, st)"
  by (simp add: parseOperation_def inHttpMethods_iff)

lemma parseOperationV2_other_key:
  "\<not> isMethodKey k \<Longrightarrow> parseOperationV2 n e st u k operationItem console = Inr (console, st)"
  by (simp add: parseOperationV2_def inHttpMethods_iff)

lemma parsePathItem_only_methods:
  "parsePathItem n e st u pathItem console =
     parsePathItem n e st u (filter (\<lambda>(k, operationItem). isMethodKey k) pathItem) console"
proof (induction pathItem arbitrary: st console)
  case Nil
  then show ?case by simp
next
  case (Cons kv pathItem)
  obtain k operationItem where kv: "kv = (k, operationItem)" by (cases kv)
  show ?case
  proof (cases "isMethodKey k")
    case True
    with kv show ?thesis
      by (simp add: Cons.IH [symmetric] cong: sum.case_cong)
  next
    case False
    with kv Cons.IH [of st console] show ?thesis
      by (simp add: parseOperation_other_key)
  qed
qed

lemma parsePathItemV2_only_methods:
  "parsePathItemV2 n e st u pathItem console =
     parsePathItemV2 n e st u (filter (\<lambda>(k, operationItem). isMethodKey k) pathItem) console"
proof (induction pathItem arbitrary: st console)
  case Nil
  then show ?case by simp
next
  case (Cons kv pathItem)
  obtain k operationItem where kv: "kv = (k, operationItem)" by (cases kv)
  show ?case
  proof (cases "isMethodKey k")
    case True
    with kv show ?thesis
      by (simp add: Cons.IH [symmetric] cong: sum.case_cong)
  next
    case False
    with kv Cons.IH [of st console] show ?thesis
      by (simp add: parseOperationV2_other_key)
  qed
qed

lemma onlyMethodKeys_simps:
  "onlyMethodKeys [] = []"
  "onlyMethodKeys ((u, pathItem) # ps) =
     (u, filter (\<lambda>(k, operationItem). isMethodKey k) pathItem) # onlyMethodKeys ps"
  by (simp_all add: onlyMethodKeys_def)

lemma parsePathsFrom_only_methods:
  "parsePathsFrom n e st ps console = parsePathsFrom n e st (onlyMethodKeys ps) console"
proof (induction ps arbitrary: st console)
  case Nil
  then show ?case by (simp add: onlyMethodKeys_simps)
next
  case (Cons up ps)
  obtain u pathItem where up: "up = (u, pathItem)" by (cases up)
  have "parsePathsFrom n e st ((u, pathItem) # ps) console =
      (case parsePathItem n e st u (filter (\<lambda>(k, operationItem). isMethodKey k) pathItem) console of
         Inl err \<Rightarrow> Inl err
       | Inr (console1, st1) \<Rightarrow> parsePathsFrom n e st1 (onlyMethodKeys ps) console1)"
    by (simp add: parsePathItem_only_methods [symmetric] Cons.IH [symmetric] cong: sum.case_cong)
  with up show ?case by (simp add: onlyMethodKeys_simps)
qed

lemma parsePathsFromV2_only_methods:
  "parsePathsFromV2 n e st ps console = parsePathsFromV2 n e st (onlyMethodKeys ps) console"
proof (induction ps arbitrary: st console)
  case Nil
  then show ?case by (simp add: onlyMethodKeys_simps)
next
  case (Cons up ps)
  obtain u pathItem where up: "up = (u, pathItem)" by (cases up)
  have "parsePathsFromV2 n e st ((u, pathItem) # ps) console =
      (case parsePathItemV2 n e st u (filter (\<lambda>(k, operationItem). isMethodKey k) pathItem) console of
         Inl err \<Rightarrow> Inl err
       | Inr (console1, st1) \<Rightarrow> parsePathsFromV2 n e st1 (onlyMethodKeys ps) console1)"
    by (simp add: parsePathItemV2_only_methods [symmetric] Cons.IH [symmetric] cong: sum.case_cong)
  with up show ?case by (simp add: onlyMethodKeys_simps)
qed

lemma methodItems_extends: "extends st st' \<Longrightarrow> methodItems st \<Longrightarrow> methodItems st'"
  by (simp add: extends_def methodItems_def requestItems_def)

lemma methodItems_pushItem:
  assumes "pushItem st tag item = Inr st'" and "methodItems st" and "isMethodKey (item_method item)"
  shows "methodItems st'"
proof -
  have "x \<in> set (requestItems st) \<or> x = item" if "x \<in> set (requestItems st')" for x
  proof (cases "tag \<in> fst ` set (tags st)")
    case True
    with assms(1) have "tags st' = map (\<lambda>(k, requestItems). if k = tag then (k, requestItems @ [item])
        else (k, requestItems)) (tags st)"
      by (auto simp: pushItem_def split: if_splits)
    with that obtain k xs where "(k, xs) \<in> set (tags st)"
      "x \<in> set (if k = tag then xs @ [item] else xs)"
      by (auto simp: requestItems_def split: if_splits)
    then show ?thesis
      by (force simp: requestItems_def split: if_splits)
  next
    case False
    with assms(1) have "tags st' = tags st @ [(tag, [item])]"
      by (auto simp: pushItem_def split: if_splits)
    with that show ?thesis
      by (auto simp: requestItems_def)
  qed
  with assms(2,3) show ?thesis
    by (auto simp: methodItems_def)
qed

lemma setSlot_keeps [simp]:
  "name (setSlot k t item) = name item"
  "item_method (setSlot k t item) = item_method item"
  "url (setSlot k t item) = url item"
  by (cases k; simp add: setSlot_def)+

lemma mergeManualTypesLoop_keeps:
  "mergeManualTypesLoop item overrides pending = (item1, pending1) \<Longrightarrow>
     name item1 = name item \<and> item_method item1 = item_method item \<and> url item1 = url item"
  by (induction item overrides pending rule: mergeManualTypesLoop.induct) (auto split: if_splits)

lemma foldl_setSlot_keeps:
  "name (foldl (\<lambda>it (k, t). setSlot k t it) item pending) = name item \<and>
   item_method (foldl (\<lambda>it (k, t). setSlot k t it) item pending) = item_method item \<and>
   url (foldl (\<lambda>it (k, t). setSlot k t it) item pending) = url item"
  by (induction pending arbitrary: item) (auto split: prod.splits)

lemma mergeManualTypes_keeps [simp]:
  "name (mergeManualTypes item overrides) = name item"
  "item_method (mergeManualTypes item overrides) = item_method item"
  "url (mergeManualTypes item overrides) = url item"
proof -
  obtain item1 pending where l: "mergeManualTypesLoop item overrides [] = (item1, pending)"
    by (cases "mergeManualTypesLoop item overrides []")
  then have m: "mergeManualTypes item overrides = foldl (\<lambda>it (k, t). setSlot k t it) item1 pending"
    by (simp add: mergeManualTypes_def)
  from mergeManualTypesLoop_keeps [OF l] foldl_setSlot_keeps [of item1 pending]
  show "name (mergeManualTypes item overrides) = name item"
    "item_method (mergeManualTypes item overrides) = item_method item"
    "url (mergeManualTypes item overrides) = url item"
    unfolding m by simp_all
qed

text \<open>
  What \<^verbatim>\<open>parsePaths\<close> does for a key it retains: the three translations in turn, and
  one request item pushed to the group of the tag.
\<close>

lemma parseOperation_retained:
  assumes "parseOperation n e st u k operationItem console = Inr (console', st')"
    and "isMethodKey k"
    and "validate (newTagValidator (cfg_include (config e)) (cfg_exclude (config e))) (firstTag operationItem)"
  obtains st3 item where "extends st st3" "pushItem st3 (firstTag operationItem) item = Inr st'"
    "item_method item = k" "url item = u"
    "operationName e (firstTag operationItem) k u operationItem = Inr (name item)"
proof -
  from assms obtain functionName r logged st1 b st2 t st3 where
    nm: "operationName e (firstTag operationItem) k u operationItem = Inr functionName" and
    a: "parseParamsSchema n e st operationItem = Inr (r, logged, st1)" and
    b: "parseRequestBodySchema n e st1 operationItem = Inr (b, st2)" and
    c: "parseResponseSchema n e st2 operationItem = Inr (t, st3)" and
    d: "pushItem st3 (firstTag operationItem)
          \<lparr> name = functionName, url = u,
            item_method = k, item_description = op_description operationItem,
            requestQueryType = query r, requestPathType = path r, requestBodyType = b,
            requestBodyTypeIsFormData = None, responseType = t \<rparr> = Inr st'"
    by (auto simp: parseOperation_def inHttpMethods_iff Let_def split: if_splits sum.splits)
  from parseParamsSchema_extends [OF a] parseRequestBodySchema_extends [OF b]
    parseResponseSchema_extends [OF c]
  have "extends st st3" by (blast intro: extends_trans)
  with d nm show ?thesis by (auto intro: that)
qed

lemma parseOperationV2_retained:
  assumes "parseOperationV2 n e st u k operationItem console = Inr (console', st')"
    and "isMethodKey k"
    and "tag = (case getTag (config e) of
        Some g \<Rightarrow> g (case urlToNameReplacer (config e) of Some f \<Rightarrow> f u | None \<Rightarrow> u) k operationItem
      | None \<Rightarrow> firstTag operationItem)"
    and "validate (newTagValidator (cfg_include (config e)) (cfg_exclude (config e))) tag"
  obtains st2 item where "extends st st2" "pushItem st2 tag item = Inr st'"
    "item_method item = k" "url item = u"
    "name item = k @ pascalCase e (case urlToNameReplacer (config e) of Some f \<Rightarrow> f u | None \<Rightarrow> u)"
proof -
  from assms obtain r logged st1 t st2 item where
    a: "parseParamsSchemaV2 n e st operationItem = Inr (r, logged, st1)" and
    c: "parseResponseSchemaV2 n e st1 operationItem = Inr (t, st2)" and
    d: "pushItem st2 tag item = Inr st'" and
    i: "item_method item = k" "url item = u"
      "name item = k @ pascalCase e (case urlToNameReplacer (config e) of Some f \<Rightarrow> f u | None \<Rightarrow> u)"
    by (auto simp: parseOperationV2_def inHttpMethods_iff Let_def
        split: if_splits sum.splits option.splits)
  from parseParamsSchemaV2_extends [OF a] parseResponseSchemaV2_extends [OF c]
  have "extends st st2" by (blast intro: extends_trans)
  with d i show ?thesis by (auto intro: that)
qed

lemma parseOperation_methodItems:
  assumes "parseOperation n e st u k operationItem console = Inr (console', st')" and "methodItems st"
  shows "methodItems st'"
proof (cases "isMethodKey k \<and>
    validate (newTagValidator (cfg_include (config e)) (cfg_exclude (config e))) (firstTag operationItem)")
  case True
  with assms(1) obtain st3 item where "extends st st3"
    "pushItem st3 (firstTag operationItem) item = Inr st'" "item_method item = k"
    by (auto elim: parseOperation_retained)
  with assms(2) True show ?thesis
    by (auto intro: methodItems_pushItem methodItems_extends)
next
  case False
  with assms show ?thesis
    by (auto simp: parseOperation_def inHttpMethods_iff Let_def split: if_splits)
qed

lemma parseOperationV2_methodItems:
  assumes "parseOperationV2 n e st u k operationItem console = Inr (console', st')" and "methodItems st"
  shows "methodItems st'"
proof -
  define tag where "tag = (case getTag (config e) of
        Some g \<Rightarrow> g (case urlToNameReplacer (config e) of Some f \<Rightarrow> f u | None \<Rightarrow> u) k operationItem
      | None \<Rightarrow> firstTag operationItem)"
  show ?thesis
  proof (cases "isMethodKey k \<and>
      validate (newTagValidator (cfg_include (config e)) (cfg_exclude (config e))) tag")
    case True
    with assms(1) tag_def obtain st2 item where "extends st st2"
      "pushItem st2 tag item = Inr st'" "item_method item = k"
      by (auto elim: parseOperationV2_retained)
    with assms(2) True show ?thesis
      by (auto intro: methodItems_pushItem methodItems_extends)
  next
    case False
    with assms show ?thesis
      by (auto simp: parseOperationV2_def inHttpMethods_iff Let_def tag_def split: if_splits)
  qed
qed

lemma parsePathItem_methodItems:
  "parsePathItem n e st u pathItem console = Inr (console', st') \<Longrightarrow> methodItems st \<Longrightarrow> methodItems st'"
proof (induction pathItem arbitrary: st console)
  case Nil
  then show ?case by simp
next
  case (Cons kv pathItem)
  obtain k operationItem where kv: "kv = (k, operationItem)" by (cases kv)
  with Cons.prems obtain c1 st1 where
    a: "parseOperation n e st u k operationItem console = Inr (c1, st1)" and
    b: "parsePathItem n e st1 u pathItem c1 = Inr (console', st')"
    by (auto split: sum.splits)
  from Cons.IH [OF b] parseOperation_methodItems [OF a] Cons.prems(2) show ?case by blast
qed

lemma parsePathItemV2_methodItems:
  "parsePathItemV2 n e st u pathItem console = Inr (console', st') \<Longrightarrow> methodItems st \<Longrightarrow> methodItems st'"
proof (induction pathItem arbitrary: st console)
  case Nil
  then show ?case by simp
next
  case (Cons kv pathItem)
  obtain k operationItem where kv: "kv = (k, operationItem)" by (cases kv)
  with Cons.prems obtain c1 st1 where
    a: "parseOperationV2 n e st u k operationItem console = Inr (c1, st1)" and
    b: "parsePathItemV2 n e st1 u pathItem c1 = Inr (console', st')"
    by (auto split: sum.splits)
  from Cons.IH [OF b] parseOperationV2_methodItems [OF a] Cons.prems(2) show ?case by blast
qed

lemma parsePathsFrom_methodItems:
  "parsePathsFrom n e st ps console = Inr (console', st') \<Longrightarrow> methodItems st \<Longrightarrow> methodItems st'"
proof (induction ps arbitrary: st console)
  case Nil
  then show ?case by simp
next
  case (Cons up ps)
  obtain u pathItem where up: "up = (u, pathItem)" by (cases up)
  with Cons.prems obtain c1 st1 where
    a: "parsePathItem n e st u pathItem console = Inr (c1, st1)" and
    b: "parsePathsFrom n e st1 ps c1 = Inr (console', st')"
    by (auto split: sum.splits)
  from Cons.IH [OF b] parsePathItem_methodItems [OF a] Cons.prems(2) show ?case by blast
qed

lemma parsePathsFromV2_methodItems:
  "parsePathsFromV2 n e st ps console = Inr (console', st') \<Longrightarrow> methodItems st \<Longrightarrow> methodItems st'"
proof (induction ps arbitrary: st console)
  case Nil
  then show ?case by simp
next
  case (Cons up ps)
  obtain u pathItem where up: "up = (u, pathItem)" by (cases up)
  with Cons.prems obtain c1 st1 where
    a: "parsePathItemV2 n e st u pathItem console = Inr (c1, st1)" and
    b: "parsePathsFromV2 n e st1 ps c1 = Inr (console', st')"
    by (auto split: sum.splits)
  from Cons.IH [OF b] parsePathItemV2_methodItems [OF a] Cons.prems(2) show ?case by blast
qed

lemma methodItems_newState: "methodItems newState"
  by (simp add: methodItems_def requestItems_def newState_def)

text \<open>
  C10. In both translators a path-item key whose upper-case form is not \<^verbatim>\<open>GET\<close>,
  \<^verbatim>\<open>PUT\<close>, \<^verbatim>\<open>POST\<close> or \<^verbatim>\<open>DELETE\<close> is passed over: the state and the console
  stay as they are. \<^verbatim>\<open>parsePaths\<close> therefore gives what it gives on the paths with
  those keys removed, and every request item in the groups after a pass from the fresh
  state carries a key whose upper-case form is one of the four. With fuel \<open>fuelBound e\<close>
  the pass does not run out of fuel.
\<close>

theorem other_method_keys_omitted:
  "(\<not> isMethodKey k \<longrightarrow>
      parseOperation n e st u k operationItem console = Inr (console, st) \<and>
      parseOperationV2 n e st u k operationItem console = Inr (console, st)) \<and>
   parsePaths n e st = parsePathsFrom n e st (onlyMethodKeys (paths (doc e))) [] \<and>
   parsePathsV2 n e st = parsePathsFromV2 n e st (onlyMethodKeys (paths (doc e))) [] \<and>
   (parsePaths n e newState = Inr (console', st') \<longrightarrow> methodItems st') \<and>
   (parsePathsV2 n e newState = Inr (console', st') \<longrightarrow> methodItems st') \<and>
   (fuelBound e \<le> n \<longrightarrow>
      parsePaths n e st \<noteq> Inl OutOfFuel \<and> parsePathsV2 n e st \<noteq> Inl OutOfFuel)"
proof -
  have "parsePaths n e st = parsePathsFrom n e st (onlyMethodKeys (paths (doc e))) []"
    unfolding parsePaths_def by (rule parsePathsFrom_only_methods)
  moreover have "parsePathsV2 n e st = parsePathsFromV2 n e st (onlyMethodKeys (paths (doc e))) []"
    unfolding parsePathsV2_def by (rule parsePathsFromV2_only_methods)
  moreover have "methodItems st'" if "parsePaths n e newState = Inr (console', st')"
    using that methodItems_newState unfolding parsePaths_def
    by (rule parsePathsFrom_methodItems)
  moreover have "methodItems st'" if "parsePathsV2 n e newState = Inr (console', st')"
    using that methodItems_newState unfolding parsePathsV2_def
    by (rule parsePathsFromV2_methodItems)
  moreover have "parseOperation n e st u k operationItem console = Inr (console, st) \<and>
      parseOperationV2 n e st u k operationItem console = Inr (console, st)" if "\<not> isMethodKey k"
    using that by (simp add: parseOperation_other_key parseOperationV2_other_key)
  moreover have "parsePaths n e st \<noteq> Inl OutOfFuel \<and> parsePathsV2 n e st \<noteq> Inl OutOfFuel"
    if "fuelBound e \<le> n"
    using that by (simp add: parsePaths_fuel parsePathsV2_fuel)
  ultimately show ?thesis by blast
qed

text \<open>
  The theorem on a path item with a \<^verbatim>\<open>get\<close> and a \<^verbatim>\<open>patch\<close> operation: the
  pass makes the one request item of \<^verbatim>\<open>get\<close>.
\<close>

theorem other_method_keys_omitted_witness:
  "\<not> isMethodKey ''patch'' \<and>
   parseOperation 0 usersEnv newState ''/users'' ''patch'' (operationOf ''patchUsers'' []) [] =
     Inr ([], newState) \<and>
   parseOperationV2 0 usersEnv newState ''/users'' ''patch'' (operationOf ''patchUsers'' []) [] =
     Inr ([], newState) \<and>
   parsePaths 0 usersEnv newState =
     Inr ([], newState\<lparr>tags := [(''main'', [usersItem ''getListUsers''])]\<rparr>) \<and>
   methodItems (newState\<lparr>tags := [(''main'', [usersItem ''getListUsers''])]\<rparr>) \<and>
   parsePathsV2 0 usersEnv newState =
     Inr ([], newState\<lparr>tags := [(''main'',
        [(usersItem ''getUsers'')\<lparr>requestBodyTypeIsFormData := Some False\<rparr>])]\<rparr>)"
proof -
  have key: "\<not> isMethodKey ''patch''"
    by code_simp
  have filtered: "onlyMethodKeys (paths (doc usersEnv)) =
      [(''/users'', [(''get'', operationOf ''listUsers'' [])])]"
    by code_simp
  have run: "parsePathsFrom 0 usersEnv newState [(''/users'', [(''get'', operationOf ''listUsers'' [])])] [] =
      Inr ([], newState\<lparr>tags := [(''main'', [usersItem ''getListUsers''])]\<rparr>)"
    by code_simp
  have runV2: "parsePathsFromV2 0 usersEnv newState [(''/users'', [(''get'', operationOf ''listUsers'' [])])] [] =
      Inr ([], newState\<lparr>tags := [(''main'',
        [(usersItem ''getUsers'')\<lparr>requestBodyTypeIsFormData := Some False\<rparr>])]\<rparr>)"
    by code_simp
  note inst = other_method_keys_omitted [of "''patch''" 0 usersEnv newState "''/users''"
      "operationOf ''patchUsers'' []" "[]" "[]"
      "newState\<lparr>tags := [(''main'', [usersItem ''getListUsers''])]\<rparr>"]
  from inst key have skip:
    "parseOperation 0 usersEnv newState ''/users'' ''patch'' (operationOf ''patchUsers'' []) [] =
       Inr ([], newState)"
    "parseOperationV2 0 usersEnv newState ''/users'' ''patch'' (operationOf ''patchUsers'' []) [] =
       Inr ([], newState)"
    by blast+
  from inst filtered run have pass: "parsePaths 0 usersEnv newState =
      Inr ([], newState\<lparr>tags := [(''main'', [usersItem ''getListUsers''])]\<rparr>)"
    by simp
  from inst filtered runV2 have passV2: "parsePathsV2 0 usersEnv newState =
      Inr ([], newState\<lparr>tags := [(''main'',
        [(usersItem ''getUsers'')\<lparr>requestBodyTypeIsFormData := Some False\<rparr>])]\<rparr>)"
    by simp
  from inst pass have "methodItems (newState\<lparr>tags := [(''main'', [usersItem ''getListUsers''])]\<rparr>)"
    by blast
  with key skip pass passV2 show ?thesis by blast
qed

section \<open>The names of the request functions\<close>

lemma map_of_push:
  "map_of (map (\<lambda>(k, rs). if k = tag then (k, rs @ [item]) else (k, rs)) xs) tag =
     map_option (\<lambda>rs. rs @ [item]) (map_of xs tag)"
  by (induction xs) auto

lemma pushItem_lastItem: "pushItem st tag item = Inr st' \<Longrightarrow> lastItem st' tag = Some item"
proof (cases "tag \<in> fst ` set (tags st)")
  case True
  assume "pushItem st tag item = Inr st'"
  with True have t: "tags st' = map (\<lambda>(k, rs). if k = tag then (k, rs @ [item])
      else (k, rs)) (tags st)"
    by (auto simp: pushItem_def split: if_splits)
  from True obtain pushed where "map_of (tags st) tag = Some pushed"
    by (cases "map_of (tags st) tag") (auto simp: map_of_eq_None_iff)
  then show ?thesis
    by (simp add: lastItem_def t map_of_push)
next
  case False
  assume "pushItem st tag item = Inr st'"
  with False have t: "tags st' = tags st @ [(tag, [item])]"
    by (auto simp: pushItem_def split: if_splits)
  from False have "map_of (tags st) tag = None"
    by (simp add: map_of_eq_None_iff)
  then show ?thesis
    by (simp add: lastItem_def t map_add_def)
qed

lemma removeDuplicatePrefix_both: "removeDuplicatePrefix tag k (tag @ ''_'' @ k @ s) = s"
proof -
  have a: "dropPrefixIgnoreCase (tag @ ''_'') (tag @ ''_'' @ k @ s) = k @ s"
    using append_eq_conv_conj [of "tag @ ''_''" "k @ s" "tag @ ''_'' @ k @ s"]
    by (simp add: dropPrefixIgnoreCase_def startsWithIgnoreCase_def)
  have b: "dropPrefixIgnoreCase k (k @ s) = s"
    by (simp add: dropPrefixIgnoreCase_def startsWithIgnoreCase_def)
  show ?thesis
    unfolding removeDuplicatePrefix_def a b ..
qed

lemma removeDuplicatePrefix_method:
  assumes "\<not> startsWithIgnoreCase (tag @ ''_'') (k @ s)"
  shows "removeDuplicatePrefix tag k (k @ s) = s"
proof -
  from assms have a: "dropPrefixIgnoreCase (tag @ ''_'') (k @ s) = k @ s"
    unfolding dropPrefixIgnoreCase_def by simp
  have b: "dropPrefixIgnoreCase k (k @ s) = s"
    by (simp add: dropPrefixIgnoreCase_def startsWithIgnoreCase_def)
  show ?thesis
    unfolding removeDuplicatePrefix_def a b ..
qed

lemma syntax_char_units:
  "c \<in> set regExpSyntaxChars \<Longrightarrow>
     upperUnits (of_char c) = [of_char c] \<and> \<not> (0x41 \<le> (of_char c :: nat) \<and> (of_char c :: nat) \<le> 0x5A)"
  by (auto simp: regExpSyntaxChars_def upperUnits_def)

lemma isMethodKey_literal:
  assumes "isMethodKey k"
  shows "literalPattern k"
proof -
  from assms have up: "\<forall>x \<in> set (toUpperCase k). 0x41 \<le> x \<and> x \<le> 0x5A"
    by (auto simp: isMethodKey_def HttpMethods_def units_def)
  show ?thesis
    unfolding literalPattern_def
  proof
    fix c
    assume c: "c \<in> set k"
    show "c \<notin> set regExpSyntaxChars"
    proof
      assume "c \<in> set regExpSyntaxChars"
      from syntax_char_units [OF this]
      have u: "upperUnits (of_char c) = [of_char c]"
        and r: "\<not> (0x41 \<le> (of_char c :: nat) \<and> (of_char c :: nat) \<le> 0x5A)"
        by blast+
      from u have "of_char c \<in> set (upperUnits (of_char c))"
        by simp
      with c have "of_char c \<in> set (toUpperCase k)"
        by (auto simp: toUpperCase_def units_def)
      with up r show False
        by blast
    qed
  qed
qed

text \<open>
  C5, as the code has it. A key that \<^verbatim>\<open>parsePaths\<close> retains (a method key whose tag
  the filter accepts) adds one request item to the group of its tag. In the version 3
  translator, for a tag without a regular-expression syntax character, its name is the
  key followed by \<^verbatim>\<open>pascalCase\<close> of the name source (the operation identifier, else
  the URL passed through \<^verbatim>\<open>urlToNameReplacer\<close>) without a leading \<^verbatim>\<open>tag_\<close> and
  without a method that follows, compared without case; for any other tag it is the key
  followed by \<^verbatim>\<open>pascalCase\<close> of what the engine makes of the name source under the
  pattern built from the tag. In the version 2 translator the name is the key followed
  by \<^verbatim>\<open>pascalCase\<close> of the URL passed through \<^verbatim>\<open>urlToNameReplacer\<close>: the
  operation identifier is not read and no prefix is removed. With fuel
  \<open>fuelBound e\<close> neither translator runs out of fuel on an operation.
\<close>

theorem request_function_names:
  "(parseOperation n e st u k operationItem console = Inr (console', st') \<and>
    isMethodKey k \<and> accepted e (firstTag operationItem) \<longrightarrow>
      (\<exists>item. lastItem st' (firstTag operationItem) = Some item \<and>
         item_method item = k \<and>
         (literalPattern (firstTag operationItem) \<longrightarrow>
            name item = k @ pascalCase e
              (removeDuplicatePrefix (firstTag operationItem) k (nameSource e u operationItem))) \<and>
         (\<not> literalPattern (firstTag operationItem) \<longrightarrow>
            (\<exists>replaced.
               regExpReplace e (duplicatePrefixPattern (firstTag operationItem) k)
                 (nameSource e u operationItem) = Some replaced \<and>
               name item = k @ pascalCase e replaced)))) \<and>
   (parseOperationV2 n e st u k operationItem console = Inr (console', st') \<and>
    isMethodKey k \<and> accepted e (tagV2 e u k operationItem) \<longrightarrow>
      (\<exists>item. lastItem st' (tagV2 e u k operationItem) = Some item \<and>
         item_method item = k \<and>
         name item = k @ pascalCase e (urlName e u))) \<and>
   removeDuplicatePrefix tag k (tag @ ''_'' @ k @ s) = s \<and>
   (\<not> startsWithIgnoreCase (tag @ ''_'') (k @ s) \<longrightarrow> removeDuplicatePrefix tag k (k @ s) = s) \<and>
   (fuelBound e \<le> n \<longrightarrow>
      parseOperation n e st u k operationItem console \<noteq> Inl OutOfFuel \<and>
      parseOperationV2 n e st u k operationItem console \<noteq> Inl OutOfFuel)"
proof -
  have fuel: "parseOperation n e st u k operationItem console \<noteq> Inl OutOfFuel \<and>
      parseOperationV2 n e st u k operationItem console \<noteq> Inl OutOfFuel"
    if "fuelBound e \<le> n"
  proof -
    from that have "unregistered e st \<le> n"
      by (rule order_trans [OF unregistered_le_fuelBound])
    then show ?thesis
      by (simp add: parseOperation_fuel parseOperationV2_fuel)
  qed
  have v3: "\<exists>item. lastItem st' (firstTag operationItem) = Some item \<and>
         item_method item = k \<and>
         (literalPattern (firstTag operationItem) \<longrightarrow>
            name item = k @ pascalCase e
              (removeDuplicatePrefix (firstTag operationItem) k (nameSource e u operationItem))) \<and>
         (\<not> literalPattern (firstTag operationItem) \<longrightarrow>
            (\<exists>replaced.
               regExpReplace e (duplicatePrefixPattern (firstTag operationItem) k)
                 (nameSource e u operationItem) = Some replaced \<and>
               name item = k @ pascalCase e replaced))"
    if "parseOperation n e st u k operationItem console = Inr (console', st')"
      and k: "isMethodKey k" and "accepted e (firstTag operationItem)"
  proof -
    from that obtain st3 item where
      p: "pushItem st3 (firstTag operationItem) item = Inr st'" and m: "item_method item = k" and
      nm: "operationName e (firstTag operationItem) k u operationItem = Inr (name item)"
      unfolding accepted_def by (auto elim: parseOperation_retained)
    have src: "(if operationId operationItem \<noteq> [] then operationId operationItem
        else (case urlToNameReplacer (config e) of Some f \<Rightarrow> f u | None \<Rightarrow> u)) =
        nameSource e u operationItem"
      by (simp add: nameSource_def)
    from nm isMethodKey_literal [OF k]
    have "(literalPattern (firstTag operationItem) \<longrightarrow>
            name item = k @ pascalCase e
              (removeDuplicatePrefix (firstTag operationItem) k (nameSource e u operationItem))) \<and>
         (\<not> literalPattern (firstTag operationItem) \<longrightarrow>
            (\<exists>replaced.
               regExpReplace e (duplicatePrefixPattern (firstTag operationItem) k)
                 (nameSource e u operationItem) = Some replaced \<and>
               name item = k @ pascalCase e replaced))"
      unfolding operationName_def replaceDuplicatePrefix_def src
      by (auto split: if_splits option.splits)
    with pushItem_lastItem [OF p] m show ?thesis
      by blast
  qed
  have v2: "\<exists>item. lastItem st' (tagV2 e u k operationItem) = Some item \<and>
         item_method item = k \<and> name item = k @ pascalCase e (urlName e u)"
    if "parseOperationV2 n e st u k operationItem console = Inr (console', st')"
      and "isMethodKey k" and "accepted e (tagV2 e u k operationItem)"
  proof -
    have tag: "tagV2 e u k operationItem = (case getTag (config e) of
        Some g \<Rightarrow> g (case urlToNameReplacer (config e) of Some f \<Rightarrow> f u | None \<Rightarrow> u) k operationItem
      | None \<Rightarrow> firstTag operationItem)"
      unfolding tagV2_def urlName_def ..
    from that(3) have "validate (newTagValidator (cfg_include (config e)) (cfg_exclude (config e)))
        (tagV2 e u k operationItem)"
      by (simp add: accepted_def)
    from parseOperationV2_retained [OF that(1,2) tag this] obtain st2 item where
      "pushItem st2 (tagV2 e u k operationItem) item = Inr st'" "item_method item = k"
      "name item = k @ pascalCase e (case urlToNameReplacer (config e) of Some f \<Rightarrow> f u | None \<Rightarrow> u)"
      by blast
    then show ?thesis
      by (auto simp: urlName_def dest: pushItem_lastItem)
  qed
  from v3 v2 fuel removeDuplicatePrefix_both removeDuplicatePrefix_method show ?thesis
    by blast
qed

text \<open>
  The theorem on the operation \<^verbatim>\<open>pet_getPetById\<close> of the tag \<^verbatim>\<open>pet\<close> under the
  key \<^verbatim>\<open>get\<close>: version 3 names it \<^verbatim>\<open>getPetById\<close>, version 2 names it after
  the URL. For the tag \<^verbatim>\<open>User (admin)\<close>, which holds syntax characters, the name of
  the operation \<^verbatim>\<open>listUsers\<close> is made from the answer of the engine.
\<close>

theorem request_function_names_witness:
  "parseOperation 0 usersEnv newState ''/pet/{id}'' ''get'' petOperation [] =
     Inr ([], newState\<lparr>tags := [(''pet'', [petItem ''getPetById''])]\<rparr>) \<and>
   lastItem (newState\<lparr>tags := [(''pet'', [petItem ''getPetById''])]\<rparr>) ''pet'' =
     Some (petItem ''getPetById'') \<and>
   ''get'' @ pascalCase usersEnv (removeDuplicatePrefix ''pet'' ''get'' (nameSource usersEnv ''/pet/{id}'' petOperation)) =
     ''getPetById'' \<and>
   parseOperationV2 0 usersEnv newState ''/pet/{id}'' ''get'' petOperation [] =
     Inr ([], newState\<lparr>tags := [(''pet'',
        [(petItem ''getPetId'')\<lparr>requestBodyTypeIsFormData := Some False\<rparr>])]\<rparr>) \<and>
   ''get'' @ pascalCase usersEnv (urlName usersEnv ''/pet/{id}'') = ''getPetId'' \<and>
   parseOperation 0 usersEnv newState ''/users'' ''get'' adminOperation [] =
     Inr ([], newState\<lparr>tags := [(''User (admin)'', [usersItem ''getListUsers''])]\<rparr>)"
proof -
  have run: "parseOperation 0 usersEnv newState ''/pet/{id}'' ''get'' petOperation [] =
      Inr ([], newState\<lparr>tags := [(''pet'', [petItem ''getPetById''])]\<rparr>)"
    "parseOperationV2 0 usersEnv newState ''/pet/{id}'' ''get'' petOperation [] =
      Inr ([], newState\<lparr>tags := [(''pet'',
        [(petItem ''getPetId'')\<lparr>requestBodyTypeIsFormData := Some False\<rparr>])]\<rparr>)"
    "parseOperation 0 usersEnv newState ''/users'' ''get'' adminOperation [] =
      Inr ([], newState\<lparr>tags := [(''User (admin)'', [usersItem ''getListUsers''])]\<rparr>)"
    by code_simp+
  have pre: "isMethodKey ''get''" "accepted usersEnv (firstTag petOperation)"
    "firstTag petOperation = ''pet''" "tagV2 usersEnv ''/pet/{id}'' ''get'' petOperation = ''pet''"
    "literalPattern ''pet''"
    by code_simp+
  have last: "lastItem (newState\<lparr>tags := [(''pet'', [petItem ''getPetById''])]\<rparr>) ''pet'' =
      Some (petItem ''getPetById'')"
    by code_simp
  have names: "name (petItem ''getPetById'') = ''getPetById''"
    "''get'' @ pascalCase usersEnv (urlName usersEnv ''/pet/{id}'') = ''getPetId''"
    by code_simp+
  from request_function_names [of 0 usersEnv newState "''/pet/{id}''" "''get''" petOperation "[]" "[]"
      "newState\<lparr>tags := [(''pet'', [petItem ''getPetById''])]\<rparr>"] run(1) pre last
  have "name (petItem ''getPetById'') = ''get'' @ pascalCase usersEnv
      (removeDuplicatePrefix ''pet'' ''get'' (nameSource usersEnv ''/pet/{id}'' petOperation))"
    by auto
  with run last names show ?thesis by simp
qed

text \<open>
  C5 as stated fails in the version 2 translator: for the operation \<^verbatim>\<open>listUsers\<close>
  under \<^verbatim>\<open>get\<close> of \<^verbatim>\<open>/users\<close> the claim gives the name \<^verbatim>\<open>getListUsers\<close>,
  and the translator makes \<^verbatim>\<open>getUsers\<close>.
\<close>

theorem request_function_names_counterexample:
  "parseOperationV2 0 usersEnv newState ''/users'' ''get'' (operationOf ''listUsers'' []) [] =
     Inr ([], newState\<lparr>tags := [(''main'',
        [(usersItem ''getUsers'')\<lparr>requestBodyTypeIsFormData := Some False\<rparr>])]\<rparr>) \<and>
   ''get'' @ pascalCase usersEnv
      (removeDuplicatePrefix ''main'' ''get'' (nameSource usersEnv ''/users'' (operationOf ''listUsers'' []))) =
     ''getListUsers'' \<and>
   ''getUsers'' \<noteq> ''getListUsers''"
  by code_simp

section \<open>Arrays of unions\<close>

lemma parseSchemaItem_array:
  "parseSchemaItem n e st (arrayOf i) =
     (case parseSchemaItem n e st i of
        Inl err \<Rightarrow> Inl err
      | Inr (t, st1) \<Rightarrow> Inr (t @ ''[]'', st1))"
  by (subst parseSchemaItem.simps [of n e st "arrayOf i"]) (simp add: arrayOf_def isRef_def
      combineSchemas_def)

lemma parseSchemaItemV2_array:
  "parseSchemaItemV2 n e st (arrayOf i) =
     (case parseSchemaItemV2 n e st i of
        Inl err \<Rightarrow> Inl err
      | Inr (t, st1) \<Rightarrow>
          Inr ((if hasUnionOrIntersection (dropFinalNewline t)
                then ''('' @ dropFinalNewline t @ '')'' else dropFinalNewline t) @ ''[]'', st1))"
  by (subst parseSchemaItemV2.simps [of n e st "arrayOf i"]) (simp add: arrayOf_def isRef_def
      combineSchemas_def Let_def split: sum.splits)

lemma parseSchemaItem_enum: "parseSchemaItem n e st (enumOf vs) = Inr (enumType vs, st)"
  by (subst parseSchemaItem.simps [of n e st "enumOf vs"]) (simp add: enumOf_def isRef_def
      combineSchemas_def)

lemma parseSchemaItemV2_enum: "parseSchemaItemV2 n e st (enumOf vs) = Inr (enumType vs, st)"
  by (subst parseSchemaItemV2.simps [of n e st "enumOf vs"]) (simp add: enumOf_def isRef_def
      combineSchemas_def)

lemma parseSchemaItem_typed:
  "parseSchemaItem n e st (typed ''string'') = Inr (''string'', st)"
  "parseSchemaItem n e st (typed ''integer'') = Inr (''number'', st)"
  by ((subst parseSchemaItem.simps [of n e st "typed t" for t]), simp add: typed_def isRef_def
      combineSchemas_def)+

lemma parseSchemaItemV2_typed:
  "parseSchemaItemV2 n e st (typed ''string'') = Inr (''string'', st)"
  "parseSchemaItemV2 n e st (typed ''integer'') = Inr (''number'', st)"
  "parseSchemaItemV2 n e st (typed ''file'') = Inr (''File'', st)"
  by ((subst parseSchemaItemV2.simps [of n e st "typed t" for t]), simp add: typed_def isRef_def
      combineSchemas_def)+

lemma parseSchemaItem_oneOf:
  "parseSchemaItem n e st (oneOfSchema [typed ''string'', typed ''integer'']) =
     Inr (''(string | number) | null'', st)"
  by (subst parseSchemaItem.simps [of n e st "oneOfSchema xs" for xs]) (simp add: oneOfSchema_def
      isRef_def combineSchemas_def parseSchemaItem_typed)

lemma parseSchemaItemV2_oneOf:
  "parseSchemaItemV2 n e st (oneOfSchema [typed ''string'', typed ''integer'']) =
     Inr (''(string | number) | null'', st)"
  by (subst parseSchemaItemV2.simps [of n e st "oneOfSchema xs" for xs]) (simp add: oneOfSchema_def
      isRef_def combineSchemas_def parseSchemaItemV2_typed)

lemma enumType_ab:
  "enumType [''a'', ''b''] = [CHR 0x27] @ ''a'' @ [CHR 0x27] @ '' | '' @ [CHR 0x27] @ ''b'' @ [CHR 0x27]"
  "hasUnionOrIntersection (dropFinalNewline (enumType [''a'', ''b'']))"
  "dropFinalNewline (enumType [''a'', ''b'']) = enumType [''a'', ''b'']"
  "hasUnionOrIntersection (dropFinalNewline ''(string | number) | null'')"
  "dropFinalNewline ''(string | number) | null'' = ''(string | number) | null''"
  "hasUnionOrIntersection (enumType [''a'', ''b''])"
  "hasUnionOrIntersection ''(string | number) | null''"
  by code_simp+

text \<open>
  C3 in the version 3 translator: \<^verbatim>\<open>case 'array'\<close> of \<^verbatim>\<open>ParseSchemas.parseSchemaItem\<close>
  appends \<^verbatim>\<open>[]\<close> to the translation of the items as it is. An array of the enumeration
  \<^verbatim>\<open>a\<close>, \<^verbatim>\<open>b\<close> translates to \<^verbatim>\<open>'a' | 'b'[]\<close>, and an array of
  \<^verbatim>\<open>oneOf\<close> string and integer to \<^verbatim>\<open>(string | number) | null[]\<close>; the version 2
  translator gives \<^verbatim>\<open>('a' | 'b')[]\<close> and \<^verbatim>\<open>((string | number) | null)[]\<close> for the
  same nodes.
\<close>

theorem array_of_union_not_parenthesized:
  "parseSchemaItem n e st (arrayOf (enumOf [''a'', ''b''])) =
     Inr ([CHR 0x27] @ ''a'' @ [CHR 0x27] @ '' | '' @ [CHR 0x27] @ ''b'' @ [CHR 0x27] @ ''[]'', st) \<and>
   parseSchemaItem n e st (arrayOf (oneOfSchema [typed ''string'', typed ''integer''])) =
     Inr (''(string | number) | null[]'', st) \<and>
   parseSchemaItemV2 n e st (arrayOf (enumOf [''a'', ''b''])) =
     Inr (''('' @ [CHR 0x27] @ ''a'' @ [CHR 0x27] @ '' | '' @ [CHR 0x27] @ ''b'' @ [CHR 0x27] @ '')[]'', st) \<and>
   parseSchemaItemV2 n e st (arrayOf (oneOfSchema [typed ''string'', typed ''integer''])) =
     Inr (''((string | number) | null)[]'', st)"
proof -
  have "parseSchemaItem n e st (arrayOf (enumOf [''a'', ''b''])) =
      Inr ([CHR 0x27] @ ''a'' @ [CHR 0x27] @ '' | '' @ [CHR 0x27] @ ''b'' @ [CHR 0x27] @ ''[]'', st)"
    unfolding parseSchemaItem_array parseSchemaItem_enum enumType_ab(1) by simp
  moreover have "parseSchemaItem n e st (arrayOf (oneOfSchema [typed ''string'', typed ''integer''])) =
      Inr (''(string | number) | null[]'', st)"
    unfolding parseSchemaItem_array parseSchemaItem_oneOf by simp
  moreover have "parseSchemaItemV2 n e st (arrayOf (enumOf [''a'', ''b''])) =
      Inr (''('' @ [CHR 0x27] @ ''a'' @ [CHR 0x27] @ '' | '' @ [CHR 0x27] @ ''b'' @ [CHR 0x27] @ '')[]'', st)"
    by (simp only: parseSchemaItemV2_array parseSchemaItemV2_enum sum.case prod.case
        enumType_ab(2,3,6) if_True) (simp add: enumType_ab(1))
  moreover have "parseSchemaItemV2 n e st (arrayOf (oneOfSchema [typed ''string'', typed ''integer''])) =
      Inr (''((string | number) | null)[]'', st)"
    by (simp only: parseSchemaItemV2_array parseSchemaItemV2_oneOf sum.case prod.case
        enumType_ab(4,5,7) if_True) simp
  ultimately show ?thesis by blast
qed

section \<open>The body parameter \<^verbatim>\<open>root\<close>\<close>

text \<open>
  One round of the loop on a body parameter \<^verbatim>\<open>root\<close>: on an empty body the translation
  becomes the body; on a body that has content the new body is the old one twice, then
  \<^verbatim>\<open> & \<close>, then the translation.
\<close>

lemma parseParamsV2_root:
  assumes "rootBodyParam paramItem" "p_schema paramItem = Some s"
    and "parseSchemaItemV2 n e st s = Inr (t, st1)" "parseSchemaItemV2 n e st1 s = Inr (t2, st2)"
  shows "parseParamsV2 n e st (paramItem # rest) acc console =
     parseParamsV2 n e st2 rest
       (acc\<lparr>body := (if body acc = [] then t2 else body acc @ body acc @ '' & '' @ t2)\<rparr>) console"
  using assms by (simp add: rootBodyParam_def)

text \<open>
  C4 on two body parameters \<^verbatim>\<open>root\<close>, of the types string and integer: the body is
  \<^verbatim>\<open>stringstring & number\<close>, the first translation twice. After a form field
  \<^verbatim>\<open>file\<close> the body holds the field twice.
\<close>

theorem root_body_repeats_prior_body:
  "parseParamsSchemaV2 n e st
     (operationOf [] [bodyParam ''root'' (typed ''string''), bodyParam ''root'' (typed ''integer'')]) =
     Inr (\<lparr>path = [], query = [], body = ''stringstring & number'', isFormDataBody = False\<rparr>, [], st) \<and>
   parseParamsSchemaV2 0 usersEnv newState
     (operationOf [] [paramOf ''file'' ''formData'' (typed ''file''),
                      bodyParam ''root'' (typed ''integer'')]) =
     Inr (\<lparr>path = [], query = [],
           body = ''FormData | {\<newline>  file: File\<newline>{\<newline>  file: File\<newline> & number}'',
           isFormDataBody = True\<rparr>, [], newState)"
proof -
  have root: "rootBodyParam (bodyParam ''root'' s)" "p_schema (bodyParam ''root'' s) = Some s" for s
    by (simp_all add: rootBodyParam_def bodyParam_def emptySchema_def isRef_def)
  have "parseParamsSchemaV2 n e st
     (operationOf [] [bodyParam ''root'' (typed ''string''), bodyParam ''root'' (typed ''integer'')]) =
     Inr (\<lparr>path = [], query = [], body = ''stringstring & number'', isFormDataBody = False\<rparr>, [], st)"
    unfolding parseParamsSchemaV2_def operationOf_def
    by (simp add: parseParamsV2_root [OF root parseSchemaItemV2_typed(1) parseSchemaItemV2_typed(1)]
        parseParamsV2_root [OF root parseSchemaItemV2_typed(2) parseSchemaItemV2_typed(2)]
        closeBlock_def del: parseParamsV2.simps(2))
  moreover have "parseParamsSchemaV2 0 usersEnv newState
     (operationOf [] [paramOf ''file'' ''formData'' (typed ''file''),
                      bodyParam ''root'' (typed ''integer'')]) =
     Inr (\<lparr>path = [], query = [],
           body = ''FormData | {\<newline>  file: File\<newline>{\<newline>  file: File\<newline> & number}'',
           isFormDataBody = True\<rparr>, [], newState)"
    by code_simp
  ultimately show ?thesis by blast
qed

section \<open>Form fields\<close>





section \<open>The request function of an item with a body\<close>











end
